theory Spec2Isabelle
  imports Main "HOL-Library.Dlist" "HOL-Library.Sublist"
begin

section \<open>The relay \<^verbatim>\<open>adsb_server.py\<close>: data model\<close>

text \<open>
  The program is an asyncio relay: one coroutine (\<^verbatim>\<open>receive_from_external_adsb\<close>) reads
  frames from an upstream websocket and hands each to \<^verbatim>\<open>broadcast_message\<close>, one handler
  coroutine per downstream connection (\<^verbatim>\<open>register_client\<close>) keeps the connection in the
  module-level set \<^verbatim>\<open>CONNECTED_CLIENTS\<close>, and \<^verbatim>\<open>main_server_logic\<close> starts and stops
  everything around the module-level \<^verbatim>\<open>shutdown_event\<close>.

  asyncio schedules coroutines cooperatively: the code between two \<^verbatim>\<open>await\<close>s runs without
  interruption, and at an \<^verbatim>\<open>await\<close> other coroutines run. The embedding makes this explicit.
  Each coroutine is a function on the shared state; at each \<^verbatim>\<open>await\<close> it takes from an
  environment argument (a) the blocks of other coroutines that run meanwhile and (b) the
  outcome of the awaited library call. Theorems quantify over all environments.
  The OS signal handler is installed with \<^verbatim>\<open>signal.signal\<close>, so Python runs it in the main
  thread between two bytecodes of whatever coroutine is running. It only sets the flag and
  logs, so it is delivered as such a block at the \<^verbatim>\<open>await\<close>s, and in the connector also
  between the test of the flag at the head of the outer loop and the connect that follows,
  where its timing decides what the connector does. The cancellation of the connector task
  by the coordinator is an outcome of the connector's \<^verbatim>\<open>await\<close>s; the handlers and the
  coordinator itself are not cancelled in the model. Time is represented only by the
  timeout arguments passed to the library and by how each timed wait ended.
\<close>

type_synonym client = nat
  \<comment> \<open>a downstream connection object (\<^verbatim>\<open>websocket_client\<close>), named by its identity\<close>

datatype conn_state = OPEN | CLOSING | CLOSED
  \<comment> \<open>the connection states behind \<^verbatim>\<open>client.open\<close> (OPEN) and \<^verbatim>\<open>client.closed\<close> (CLOSED)\<close>

datatype exn =
    ConnectionClosedOK
  | ConnectionClosedError
  | WebSocketException
  | ConnectionRefusedError "int option"
  | OSError "int option"
  | OtherException
  \<comment> \<open>the subclasses of \<^verbatim>\<open>Exception\<close> that the program's \<^verbatim>\<open>except\<close> clauses tell apart;
      the argument of the OS errors is \<^verbatim>\<open>e.errno\<close>\<close>

fun is_ConnectionClosed :: "exn \<Rightarrow> bool" where
  "is_ConnectionClosed ConnectionClosedOK = True"
| "is_ConnectionClosed ConnectionClosedError = True"
| "is_ConnectionClosed _ = False"

fun is_WebSocketException :: "exn \<Rightarrow> bool" where
  "is_WebSocketException ConnectionClosedOK = True"
| "is_WebSocketException ConnectionClosedError = True"
| "is_WebSocketException WebSocketException = True"
| "is_WebSocketException _ = False"

fun is_OSError :: "exn \<Rightarrow> bool" where
  "is_OSError (ConnectionRefusedError _) = True"
| "is_OSError (OSError _) = True"
| "is_OSError _ = False"

fun errno :: "exn \<Rightarrow> int option" where
  "errno (ConnectionRefusedError n) = n"
| "errno (OSError n) = n"
| "errno _ = None"

datatype coro_result = Returned | Raised exn | CancelledErr
  \<comment> \<open>what awaiting a task gives: its return, its exception, or \<^verbatim>\<open>asyncio.CancelledError\<close>\<close>

datatype task =
    ClientWait client
  | ClientShutdownListen client
  | SendTo client
  | ExternalDataReceiver
  | ShutdownEventWatcher
  \<comment> \<open>the tasks the program creates, by the \<^verbatim>\<open>name=\<close> it gives them\<close>

datatype level = DEBUG | INFO | WARNING | ERROR | CRITICAL

fun level_no :: "level \<Rightarrow> nat" where
  "level_no DEBUG = 10"
| "level_no INFO = 20"
| "level_no WARNING = 30"
| "level_no ERROR = 40"
| "level_no CRITICAL = 50"

datatype msg =
    RejectingNewClient client
  | ClientConnected client string nat
  | ServerClosingClient client
  | ClientClosedOK client
  | ClientClosedWithError client exn
  | UnexpectedClientError client exn
  | ClientSessionEnded client nat
  | EmptyBroadcast
  | Broadcasting nat string
  | ClientWasClosed client
  | ErrorSending task exn
  | NoClientsConnected
  | ReceiverStarted
  | AttemptingConnect string
  | ConnectedExternal string
  | ExternalClosedDuringReceive
  | ErrorReceiving exn
  | ExternalConnectionIssue exn
  | UnexpectedExternalError exn
  | ReceiverStopped
  | PortInUse nat
  | OSErrorStartup exn
  | FailedToStart exn
  | ServerStarted string nat
  | MainRunning
  | ExternalTaskFinished
  | ExternalTaskException exn
  | ShutdownTriggered
  | WaitReturnedUnexpectedly
  | InitiatingShutdown
  | ClosingLocalServer
  | ServerClosed
  | TimeoutClosingServer
  | WaitingForMainTasks "task list"
  | TimeoutWaitingMainTasks
  | TaskDidNotFinish task
  | TaskCancelled task
  | ErrorAwaitingCancelled task exn
  | ShutdownComplete
  | ReceivedOSSignal nat
  | ShutdownAlreadyInProgress
  \<comment> \<open>one constructor per logging call of the source, with the values it formats\<close>

datatype wait_outcome = EventSet | TimedOut

datatype event =
    Log level msg
  | Send client string
  | Close client nat string
  | Connect string
  | WaitShutdown nat wait_outcome
  | Serve string nat
  | ServerClose
  | CreateTask task
  | Cancel task
  \<comment> \<open>the observable actions: an emitted log record, \<^verbatim>\<open>client.send(m)\<close> run,
      \<^verbatim>\<open>client.close(code, reason)\<close>, \<^verbatim>\<open>websockets.connect(uri)\<close>,
      \<^verbatim>\<open>wait_for(shutdown_event.wait(), timeout)\<close> with how it ended,
      \<^verbatim>\<open>websockets.serve\<close> succeeding, \<^verbatim>\<open>server.close()\<close>, \<^verbatim>\<open>create_task\<close>, \<^verbatim>\<open>task.cancel()\<close>\<close>

record state =
  CONNECTED_CLIENTS :: "client dlist"
  shutdown_event :: bool
  conn :: "client \<Rightarrow> conn_state"
  trace :: "event list"

text \<open>
  \<^verbatim>\<open>CONNECTED_CLIENTS\<close> is a Python set: a duplicate-free collection, here a \<open>dlist\<close>;
  \<^verbatim>\<open>list(CONNECTED_CLIENTS)\<close> is its enumeration (Python leaves the order unspecified, the
  model fixes one). \<open>conn\<close> is the state of each connection object, \<open>trace\<close> the actions so far.
\<close>

definition EXTERNAL_WS_URI :: string where
  "EXTERNAL_WS_URI = ''ws://192.87.172.71:1338''"

definition LOCAL_WS_HOST :: string where
  "LOCAL_WS_HOST = ''0.0.0.0''"

definition LOCAL_WS_PORT :: nat where
  "LOCAL_WS_PORT = 9000"

definition initial :: state where
  "initial = \<lparr>CONNECTED_CLIENTS = Dlist.empty, shutdown_event = False,
              conn = (\<lambda>_. OPEN), trace = []\<rparr>"

definition emit :: "event \<Rightarrow> state \<Rightarrow> state" where
  "emit e s = s\<lparr>trace := trace s @ [e]\<rparr>"

definition enabled :: "level \<Rightarrow> bool" where
  \<comment> \<open>\<^verbatim>\<open>logging.basicConfig(level=logging.INFO)\<close>\<close>
  "enabled l = (level_no INFO \<le> level_no l)"

definition log :: "level \<Rightarrow> msg \<Rightarrow> state \<Rightarrow> state" where
  "log l m s = (if enabled l then emit (Log l m) s else s)"

definition client_close :: "client \<Rightarrow> nat \<Rightarrow> string \<Rightarrow> exn option \<Rightarrow> state \<Rightarrow> exn option \<times> state" where
  \<comment> \<open>\<^verbatim>\<open>await websocket_client.close(code=..., reason=...)\<close>; the library's outcome is given:
      \<open>None\<close> when it returns (the connection is then closed), \<open>Some e\<close> when it raises\<close>
  "client_close c code reason outcome s =
     (let s1 = emit (Close c code reason) s
      in case outcome of
           None \<Rightarrow> (None, s1\<lparr>conn := (conn s1)(c := CLOSED)\<rparr>)
         | Some e \<Rightarrow> (Some e, s1))"

section \<open>\<^verbatim>\<open>os_signal_handler\<close>\<close>

definition os_signal_handler :: "nat \<Rightarrow> state \<Rightarrow> state" where
  "os_signal_handler sig s =
     (let s1 = log INFO (ReceivedOSSignal sig) s
      in if \<not> shutdown_event s1 then s1\<lparr>shutdown_event := True\<rparr>
         else log WARNING ShutdownAlreadyInProgress s1)"

section \<open>\<^verbatim>\<open>register_client\<close>\<close>

text \<open>
  The handler has its first suspension at \<^verbatim>\<open>await asyncio.wait(...)\<close> (or, on the rejection
  path, at \<^verbatim>\<open>await websocket_client.close(...)\<close>, after which it only returns).
  \<open>register_client_enter\<close> is the code up to there, \<open>register_client_resume\<close> the code from
  the return of \<^verbatim>\<open>asyncio.wait\<close> to the end of the handler.
\<close>

datatype handler_status = Finished "exn option" | Waiting
  \<comment> \<open>\<open>Finished None\<close>: returned; \<open>Finished (Some e)\<close>: \<open>e\<close> left the handler; \<open>Waiting\<close>: suspended\<close>

definition register_client_enter ::
  "client \<Rightarrow> string \<Rightarrow> exn option \<Rightarrow> state \<Rightarrow> handler_status \<times> state" where
  "register_client_enter c path close_outcome s =
     (if shutdown_event s then
        (let s1 = log WARNING (RejectingNewClient c) s;
             (r, s2) = client_close c 1012 ''Server shutting down'' close_outcome s1
         in case r of
              None \<Rightarrow> (Finished None, s2)
            | Some e \<Rightarrow> if is_ConnectionClosed e then (Finished None, s2)
                        else (Finished (Some e), s2))
      else
        (let s1 = s\<lparr>CONNECTED_CLIENTS := Dlist.insert c (CONNECTED_CLIENTS s)\<rparr>;
             s2 = log INFO (ClientConnected c path (Dlist.length (CONNECTED_CLIENTS s1))) s1;
             s3 = emit (CreateTask (ClientWait c)) s2;
             s4 = emit (CreateTask (ClientShutdownListen c)) s3
         in (Waiting, s4)))"

record resume_env =
  done_tasks :: "task list"
  close_outcome :: "exn option"
  cancelled_await :: "task \<Rightarrow> coro_result"
  \<comment> \<open>what the handler meets after \<^verbatim>\<open>asyncio.wait\<close>: the \<^verbatim>\<open>done\<close> set, the outcome of
      \<^verbatim>\<open>close\<close>, and the outcome of awaiting each cancelled task\<close>

definition pending_tasks :: "client \<Rightarrow> task list \<Rightarrow> task list" where
  "pending_tasks c dn = filter (\<lambda>t. t \<notin> set dn) [ClientWait c, ClientShutdownListen c]"

fun cancel_pending :: "(task \<Rightarrow> coro_result) \<Rightarrow> task list \<Rightarrow> state \<Rightarrow> exn option \<times> state" where
  "cancel_pending aw [] s = (None, s)"
| "cancel_pending aw (t # ts) s =
     (let s1 = emit (Cancel t) s
      in case aw t of
           Raised e \<Rightarrow> (Some e, s1)
         | _ \<Rightarrow> cancel_pending aw ts s1)"

definition close_on_shutdown :: "client \<Rightarrow> resume_env \<Rightarrow> state \<Rightarrow> exn option \<times> state" where
  \<comment> \<open>the block \<^verbatim>\<open>if shutdown_listen_task in done: ...\<close>; the result is the exception it raises\<close>
  "close_on_shutdown c env s =
     (if ClientShutdownListen c \<in> set (done_tasks env) then
        (let sa = log INFO (ServerClosingClient c) s
         in if conn sa c \<noteq> CLOSED
            then client_close c 1012 ''Server shutting down'' (close_outcome env) sa
            else (None, sa))
      else (None, s))"

definition handler_body :: "client \<Rightarrow> resume_env \<Rightarrow> state \<Rightarrow> exn option \<times> state" where
  \<comment> \<open>the \<^verbatim>\<open>try\<close> block after \<^verbatim>\<open>asyncio.wait\<close> has returned; the result is the exception
      that leaves the block, if any\<close>
  "handler_body c env s =
     (case close_on_shutdown c env s of
        (Some e, s1) \<Rightarrow> (Some e, s1)
      | (None, s1) \<Rightarrow>
          cancel_pending (cancelled_await env) (pending_tasks c (done_tasks env)) s1)"

definition register_client_resume :: "client \<Rightarrow> resume_env \<Rightarrow> state \<Rightarrow> state" where
  "register_client_resume c env s =
     (let (exc, s1) = handler_body c env s;
          s2 = (case exc of
                  None \<Rightarrow> s1
                | Some e \<Rightarrow>
                    if e = ConnectionClosedOK then log INFO (ClientClosedOK c) s1
                    else if e = ConnectionClosedError then log WARNING (ClientClosedWithError c e) s1
                    else log ERROR (UnexpectedClientError c e) s1);
          s3 = (if Dlist.member (CONNECTED_CLIENTS s2) c
                then s2\<lparr>CONNECTED_CLIENTS := Dlist.remove c (CONNECTED_CLIENTS s2)\<rparr>
                else s2)
      in log INFO (ClientSessionEnded c (Dlist.length (CONNECTED_CLIENTS s3))) s3)"

section \<open>What other coroutines do during an \<^verbatim>\<open>await\<close>\<close>

datatype task_event =
    Accept client string "exn option"
  | Resume client resume_env
  | ConnChange client conn_state
  | OsSignal nat
  \<comment> \<open>a handler starting for a new connection, a handler resuming from its wait, the library
      moving a connection to another state (the peer closed it), the OS signal handler running\<close>

fun apply_task_event :: "task_event \<Rightarrow> state \<Rightarrow> state" where
  "apply_task_event (Accept c path co) s = snd (register_client_enter c path co s)"
| "apply_task_event (Resume c env) s = register_client_resume c env s"
| "apply_task_event (ConnChange c st) s = s\<lparr>conn := (conn s)(c := st)\<rparr>"
| "apply_task_event (OsSignal sig) s = os_signal_handler sig s"

fun run_tasks :: "task_event list \<Rightarrow> state \<Rightarrow> state" where
  "run_tasks [] s = s"
| "run_tasks (ev # evs) s = run_tasks evs (apply_task_event ev s)"

record handler_env =
  accept_close :: "exn option"
  during_wait :: "task_event list"
  resume :: resume_env

definition register_client :: "client \<Rightarrow> string \<Rightarrow> handler_env \<Rightarrow> state \<Rightarrow> exn option \<times> state" where
  \<comment> \<open>the whole handler: the result is the exception that leaves it, if any\<close>
  "register_client c path env s =
     (case register_client_enter c path (accept_close env) s of
        (Finished r, s1) \<Rightarrow> (r, s1)
      | (Waiting, s1) \<Rightarrow>
          (None, register_client_resume c (resume env) (run_tasks (during_wait env) s1)))"

section \<open>\<^verbatim>\<open>broadcast_message\<close>\<close>

record gather_env =
  interleaved :: "client \<Rightarrow> task_event list"
  send_result :: "client \<Rightarrow> exn option"
  after_sends :: "task_event list"
  \<comment> \<open>what happens while \<^verbatim>\<open>asyncio.gather\<close> is awaited: the blocks of other coroutines that
      run before the send to each client and after the last send, and whether
      \<^verbatim>\<open>client.send\<close> returns (\<open>None\<close>) or raises\<close>

fun create_send_tasks :: "string \<Rightarrow> client list \<Rightarrow> state \<Rightarrow> (client \<times> string) list \<times> state" where
  \<comment> \<open>the loop \<^verbatim>\<open>for client in clients_to_send\<close>; a task is the pair of the client and the
      message of its \<^verbatim>\<open>client.send(message_str)\<close>\<close>
  "create_send_tasks m [] s = ([], s)"
| "create_send_tasks m (c # cs) s =
     (if conn s c = OPEN then
        (let (ts, s1) = create_send_tasks m cs (emit (CreateTask (SendTo c)) s)
         in ((c, m) # ts, s1))
      else create_send_tasks m cs (log WARNING (ClientWasClosed c) s))"

fun run_sends :: "gather_env \<Rightarrow> (client \<times> string) list \<Rightarrow> state \<Rightarrow> exn option list \<times> state" where
  "run_sends env [] s = ([], s)"
| "run_sends env ((c, m) # ts) s =
     (let s1 = run_tasks (interleaved env c) s;
          s2 = emit (Send c m) s1;
          (rs, s3) = run_sends env ts s2
      in (send_result env c # rs, s3))"

definition gather ::
  "bool \<Rightarrow> gather_env \<Rightarrow> (client \<times> string) list \<Rightarrow> state \<Rightarrow> (exn + exn option list) \<times> state" where
  \<comment> \<open>\<^verbatim>\<open>await asyncio.gather(*tasks, return_exceptions=...)\<close>: all tasks run; with
      \<^verbatim>\<open>return_exceptions=True\<close> an exception is a result, otherwise the first one is raised\<close>
  "gather return_exceptions env tasks s =
     (let (rs, s1) = run_sends env tasks s;
          s2 = run_tasks (after_sends env) s1
      in if return_exceptions then (Inr rs, s2)
         else (case List.map_filter id rs of
                 [] \<Rightarrow> (Inr rs, s2)
               | e # _ \<Rightarrow> (Inl e, s2)))"

fun report_errors :: "((client \<times> string) \<times> exn option) list \<Rightarrow> state \<Rightarrow> state" where
  \<comment> \<open>the loop \<^verbatim>\<open>for i, result in enumerate(results)\<close> over \<^verbatim>\<open>tasks[i]\<close> and \<^verbatim>\<open>result\<close>\<close>
  "report_errors [] s = s"
| "report_errors (((c, m), r) # xs) s =
     (case r of
        Some e \<Rightarrow> report_errors xs (log ERROR (ErrorSending (SendTo c) e) s)
      | None \<Rightarrow> report_errors xs s)"

definition broadcast_message :: "gather_env \<Rightarrow> string \<Rightarrow> state \<Rightarrow> exn option \<times> state" where
  \<comment> \<open>the result is the exception that leaves the call, if any\<close>
  "broadcast_message env message_str s =
     (if message_str = [] then (None, log DEBUG EmptyBroadcast s)
      else if \<not> Dlist.null (CONNECTED_CLIENTS s) then
        (let s1 = log DEBUG (Broadcasting (Dlist.length (CONNECTED_CLIENTS s)) (take 100 message_str)) s;
             clients_to_send = list_of_dlist (CONNECTED_CLIENTS s1);
             (tasks, s2) = create_send_tasks message_str clients_to_send s1
         in if tasks \<noteq> [] then
              (case gather True env tasks s2 of
                 (Inl e, s3) \<Rightarrow> (Some e, s3)
               | (Inr results, s3) \<Rightarrow> (None, report_errors (zip tasks results) s3))
            else (None, s2))
      else (None, log DEBUG NoClientsConnected s))"

section \<open>\<^verbatim>\<open>receive_from_external_adsb\<close>\<close>

text \<open>
  The connector's environment is a script that follows the shape of its loops: a list of
  connect attempts. An attempt gives the signals handled after the loop test has passed
  (before and after the record that announces the attempt; there is no \<^verbatim>\<open>await\<close> between
  the test and the call of \<^verbatim>\<open>websockets.connect\<close>, so only the signal handler can run
  there), the blocks of other coroutines that run while \<^verbatim>\<open>websockets.connect\<close> is
  awaited, the outcome of the connect, the blocks that run during the retry wait, and
  whether the task is cancelled in that wait. A successful connect carries the steps of the
  receive loop and what happens when the \<^verbatim>\<open>async with\<close> block is left.

  The coordinator cancels the connector task when it is still pending as the shutdown
  sequence starts. \<^verbatim>\<open>CancelledError\<close> is then raised at the \<^verbatim>\<open>await\<close> where the connector
  is suspended; it is not an \<^verbatim>\<open>Exception\<close>, so no \<^verbatim>\<open>except\<close> clause of the connector
  catches it and the run ends there, \<open>Cancelled\<close>. The loops may run forever; a script is
  finite, and a run that has used up its script while the coroutine still waits is
  \<open>Suspended\<close>.
\<close>

datatype recv_outcome =
    Message string gather_env
  | MessageCancelled string gather_env nat
  | RecvTimeout
  | RecvRaised exn
  | RecvCancelled
  \<comment> \<open>\<^verbatim>\<open>await asyncio.wait_for(external_websocket.recv(), timeout=1.0)\<close>: a frame (with the
      environment of the broadcast it leads to); a frame whose broadcast is cut by the
      cancellation of the task after so many sends have run; \<^verbatim>\<open>asyncio.TimeoutError\<close>;
      another exception; cancellation of the task while it waits for a frame\<close>

datatype recv_step = RecvStep "task_event list" recv_outcome

datatype connect_outcome =
    ConnectRaised exn
  | ConnectCancelled
  | Connected "recv_step list" "task_event list" coro_result
  \<comment> \<open>for a connection that was made: the receive steps, the blocks that run while the
      \<^verbatim>\<open>async with\<close> block is left, and how leaving it ends\<close>

record attempt =
  signals_after_test :: "nat list"
  signals_before_connect :: "nat list"
  during_connect :: "task_event list"
  connect_result :: connect_outcome
  during_retry_wait :: "task_event list"
  retry_wait_cancelled :: bool

datatype run = Completed | Suspended | Cancelled

definition handle_signals :: "nat list \<Rightarrow> state \<Rightarrow> state" where
  \<comment> \<open>\<^verbatim>\<open>os_signal_handler\<close> run for each of the signals, in order\<close>
  "handle_signals sigs s = run_tasks (map OsSignal sigs) s"

definition broadcast_cancelled :: "gather_env \<Rightarrow> nat \<Rightarrow> string \<Rightarrow> state \<Rightarrow> state option" where
  \<comment> \<open>\<^verbatim>\<open>await broadcast_message(message_str)\<close> when the caller is cancelled while
      \<^verbatim>\<open>asyncio.gather\<close> is awaited, after \<open>k\<close> of the sends have run (\<^verbatim>\<open>gather\<close> then cancels
      the others); \<open>None\<close> when the call reaches no \<^verbatim>\<open>await\<close> at which it could be cancelled\<close>
  "broadcast_cancelled env k message_str s =
     (if message_str = [] then None
      else if \<not> Dlist.null (CONNECTED_CLIENTS s) then
        (let s1 = log DEBUG (Broadcasting (Dlist.length (CONNECTED_CLIENTS s)) (take 100 message_str)) s;
             clients_to_send = list_of_dlist (CONNECTED_CLIENTS s1);
             (tasks, s2) = create_send_tasks message_str clients_to_send s1
         in if tasks \<noteq> [] then Some (snd (run_sends env (take k tasks) s2)) else None)
      else None)"

definition on_receive_error :: "exn \<Rightarrow> state \<Rightarrow> state" where
  \<comment> \<open>the handlers \<^verbatim>\<open>except ConnectionClosed\<close> and \<^verbatim>\<open>except Exception\<close> of the receive loop\<close>
  "on_receive_error e s =
     (if is_ConnectionClosed e then log WARNING ExternalClosedDuringReceive s
      else log ERROR (ErrorReceiving e) s)"

fun receive_loop :: "recv_step list \<Rightarrow> state \<Rightarrow> run \<times> state" where
  \<comment> \<open>the inner \<^verbatim>\<open>while not shutdown_event.is_set()\<close>; \<open>Completed\<close> when the loop is left
      (by its condition or by \<^verbatim>\<open>break\<close>)\<close>
  "receive_loop [] s = (if shutdown_event s then (Completed, s) else (Suspended, s))"
| "receive_loop (RecvStep evs out # rest) s =
     (if shutdown_event s then (Completed, s)
      else
        (case out of
           Message message_str benv \<Rightarrow>
             (if message_str \<noteq> [] then
                (case broadcast_message benv message_str (run_tasks evs s) of
                   (None, s2) \<Rightarrow> receive_loop rest s2
                 | (Some e, s2) \<Rightarrow> (Completed, on_receive_error e s2))
              else receive_loop rest (run_tasks evs s))
         | MessageCancelled message_str benv k \<Rightarrow>
             (if message_str \<noteq> [] then
                (case broadcast_cancelled benv k message_str (run_tasks evs s) of
                   Some s2 \<Rightarrow> (Cancelled, s2)
                 | None \<Rightarrow>
                     (case broadcast_message benv message_str (run_tasks evs s) of
                        (None, s2) \<Rightarrow> receive_loop rest s2
                      | (Some e, s2) \<Rightarrow> (Completed, on_receive_error e s2)))
              else receive_loop rest (run_tasks evs s))
         | RecvTimeout \<Rightarrow> receive_loop rest (run_tasks evs s)
         | RecvRaised e \<Rightarrow> (Completed, on_receive_error e (run_tasks evs s))
         | RecvCancelled \<Rightarrow> (Cancelled, run_tasks evs s)))"

definition on_connect_error :: "exn \<Rightarrow> state \<Rightarrow> state" where
  \<comment> \<open>the handlers \<^verbatim>\<open>except (WebSocketException, ConnectionRefusedError, OSError)\<close> and
      \<^verbatim>\<open>except Exception\<close> of the outer loop; \<^verbatim>\<open>ConnectionRefusedError\<close> is an \<^verbatim>\<open>OSError\<close>\<close>
  "on_connect_error e s =
     (if is_WebSocketException e \<or> is_OSError e then log WARNING (ExternalConnectionIssue e) s
      else log ERROR (UnexpectedExternalError e) s)"

definition retry_wait :: "task_event list \<Rightarrow> state \<Rightarrow> state" where
  \<comment> \<open>\<^verbatim>\<open>if not shutdown_event.is_set(): await asyncio.wait_for(shutdown_event.wait(), timeout=5.0)\<close>
      with \<^verbatim>\<open>asyncio.TimeoutError\<close> passed over\<close>
  "retry_wait evs s =
     (if \<not> shutdown_event s then
        (let s1 = run_tasks evs s
         in emit (WaitShutdown 5 (if shutdown_event s1 then EventSet else TimedOut)) s1)
      else s)"

definition start_connect :: "attempt \<Rightarrow> state \<Rightarrow> state" where
  \<comment> \<open>from the loop test that found the flag unset to the call of \<^verbatim>\<open>websockets.connect\<close>\<close>
  "start_connect a s =
     emit (Connect EXTERNAL_WS_URI)
       (handle_signals (signals_before_connect a)
          (log INFO (AttemptingConnect EXTERNAL_WS_URI)
             (handle_signals (signals_after_test a) s)))"

definition attempt_body :: "attempt \<Rightarrow> state \<Rightarrow> run \<times> state" where
  \<comment> \<open>the \<^verbatim>\<open>try\<close> statement of one iteration of the outer loop, with its \<^verbatim>\<open>except\<close> clauses\<close>
  "attempt_body a s =
     (let s2 = run_tasks (during_connect a) (start_connect a s)
      in case connect_result a of
           ConnectRaised e \<Rightarrow> (Completed, on_connect_error e s2)
         | ConnectCancelled \<Rightarrow> (Cancelled, s2)
         | Connected steps xevs xout \<Rightarrow>
             (case receive_loop steps (log INFO (ConnectedExternal EXTERNAL_WS_URI) s2) of
                (Suspended, s3) \<Rightarrow> (Suspended, s3)
              | (Cancelled, s3) \<Rightarrow> (Cancelled, run_tasks xevs s3)
              | (Completed, s3) \<Rightarrow>
                  (case xout of
                     Returned \<Rightarrow> (Completed, run_tasks xevs s3)
                   | Raised e \<Rightarrow> (Completed, on_connect_error e (run_tasks xevs s3))
                   | CancelledErr \<Rightarrow> (Cancelled, run_tasks xevs s3))))"

fun connector_loop :: "attempt list \<Rightarrow> state \<Rightarrow> run \<times> state" where
  \<comment> \<open>the outer \<^verbatim>\<open>while not shutdown_event.is_set()\<close>\<close>
  "connector_loop [] s = (if shutdown_event s then (Completed, s) else (Suspended, s))"
| "connector_loop (a # rest) s =
     (if shutdown_event s then (Completed, s)
      else
        (case attempt_body a s of
           (Suspended, s1) \<Rightarrow> (Suspended, s1)
         | (Cancelled, s1) \<Rightarrow> (Cancelled, s1)
         | (Completed, s1) \<Rightarrow>
             if retry_wait_cancelled a \<and> \<not> shutdown_event s1
             then (Cancelled, run_tasks (during_retry_wait a) s1)
             else connector_loop rest (retry_wait (during_retry_wait a) s1)))"

definition receive_from_external_adsb :: "attempt list \<Rightarrow> state \<Rightarrow> run \<times> state" where
  "receive_from_external_adsb script s =
     (case connector_loop script (log INFO ReceiverStarted s) of
        (Completed, s1) \<Rightarrow> (Completed, log INFO ReceiverStopped s1)
      | (Suspended, s1) \<Rightarrow> (Suspended, s1)
      | (Cancelled, s1) \<Rightarrow> (Cancelled, s1))"

section \<open>\<^verbatim>\<open>main_server_logic\<close>\<close>

record main_env =
  during_serve :: "task_event list"
  serve_outcome :: "exn option"
  during_main_wait :: "task_event list"
  wait_done :: "task list"
  external_result :: coro_result
  during_close :: "task_event list"
  close_timed_out :: bool
  done_after_close :: "task \<Rightarrow> bool"
  during_final_wait :: "task_event list"
  final_wait_timeout :: bool
  done_after_wait :: "task \<Rightarrow> bool"
  awaited_cancelled :: "task \<Rightarrow> coro_result"
  \<comment> \<open>at each \<^verbatim>\<open>await\<close> of the coordinator: the blocks of other coroutines meanwhile and the
      outcome; \<open>wait_done\<close> is the \<^verbatim>\<open>done\<close> set of \<^verbatim>\<open>asyncio.wait(..., FIRST_COMPLETED)\<close>,
      \<open>external_result\<close> how \<^verbatim>\<open>external_data_task\<close> ended when it is in that set, the
      \<open>done_after\<close> fields the later answers of \<^verbatim>\<open>task.done()\<close> for tasks not done before\<close>

definition set_shutdown :: "state \<Rightarrow> state" where
  \<comment> \<open>\<^verbatim>\<open>if not shutdown_event.is_set(): shutdown_event.set()\<close>\<close>
  "set_shutdown s = (if \<not> shutdown_event s then s\<lparr>shutdown_event := True\<rparr> else s)"

fun cancel_all :: "task list \<Rightarrow> state \<Rightarrow> state" where
  \<comment> \<open>\<^verbatim>\<open>for task in pending: if not task.done(): task.cancel()\<close>; a pending task is not done\<close>
  "cancel_all [] s = s"
| "cancel_all (t # ts) s = cancel_all ts (emit (Cancel t) s)"

fun force_cancel :: "main_env \<Rightarrow> task list \<Rightarrow> state \<Rightarrow> state" where
  \<comment> \<open>the loop over \<^verbatim>\<open>tasks_to_await\<close> in the \<^verbatim>\<open>except asyncio.TimeoutError\<close> handler\<close>
  "force_cancel env [] s = s"
| "force_cancel env (t # ts) s =
     (if \<not> done_after_wait env t then
        (let s1 = emit (Cancel t) (log WARNING (TaskDidNotFinish t) s)
         in case awaited_cancelled env t of
              CancelledErr \<Rightarrow> force_cancel env ts (log INFO (TaskCancelled t) s1)
            | Raised e \<Rightarrow> force_cancel env ts (log ERROR (ErrorAwaitingCancelled t e) s1)
            | Returned \<Rightarrow> force_cancel env ts s1)
      else force_cancel env ts s)"

definition main_pending :: "main_env \<Rightarrow> task list" where
  \<comment> \<open>the \<^verbatim>\<open>pending\<close> set of \<^verbatim>\<open>asyncio.wait([shutdown_wait_task, external_data_task], ...)\<close>\<close>
  "main_pending env =
     filter (\<lambda>t. t \<notin> set (wait_done env)) [ShutdownEventWatcher, ExternalDataReceiver]"

definition tasks_to_await :: "main_env \<Rightarrow> task list" where
  \<comment> \<open>the tasks for which \<^verbatim>\<open>task.done()\<close> is still false after the listener was closed\<close>
  "tasks_to_await env =
     filter (\<lambda>t. \<not> (t \<in> set (wait_done env) \<or> done_after_close env t))
       [ExternalDataReceiver, ShutdownEventWatcher]"

definition shutdown_sequence :: "main_env \<Rightarrow> state \<Rightarrow> state" where
  \<comment> \<open>from \<^verbatim>\<open>logger.info("Initiating shutdown sequence...")\<close> to the end of the coroutine\<close>
  "shutdown_sequence env s =
     (let s1 = set_shutdown (log INFO InitiatingShutdown s);
          s2 = cancel_all (main_pending env) s1;
          s3 = emit ServerClose (log INFO ClosingLocalServer s2);
          s4 = run_tasks (during_close env) s3;
          s5 = (if close_timed_out env then log WARNING TimeoutClosingServer s4
                else log INFO ServerClosed s4);
          s6 = (if tasks_to_await env \<noteq> [] then
                  (let s7 = run_tasks (during_final_wait env)
                              (log INFO (WaitingForMainTasks (tasks_to_await env)) s5)
                   in if final_wait_timeout env
                      then force_cancel env (tasks_to_await env)
                             (log WARNING TimeoutWaitingMainTasks s7)
                      else s7)
                else s5)
      in log INFO ShutdownComplete s6)"

definition main_server_logic :: "main_env \<Rightarrow> state \<Rightarrow> coro_result \<times> state" where
  "main_server_logic env s =
     (let s0 = run_tasks (during_serve env) s
      in case serve_outcome env of
           Some e \<Rightarrow>
             (if is_OSError e then
                (if errno e = Some 10048 then (Returned, log CRITICAL (PortInUse LOCAL_WS_PORT) s0)
                 else (Returned, log CRITICAL (OSErrorStartup e) s0))
              else (Returned, log CRITICAL (FailedToStart e) s0))
         | None \<Rightarrow>
             (let s1 = log INFO (ServerStarted LOCAL_WS_HOST LOCAL_WS_PORT)
                         (emit (Serve LOCAL_WS_HOST LOCAL_WS_PORT) s0);
                  s2 = emit (CreateTask ShutdownEventWatcher) (emit (CreateTask ExternalDataReceiver) s1);
                  s3 = run_tasks (during_main_wait env) (log INFO MainRunning s2)
              in if ExternalDataReceiver \<in> set (wait_done env) then
                   (let s4 = log WARNING ExternalTaskFinished s3
                    in case external_result env of
                         CancelledErr \<Rightarrow> (CancelledErr, s4)
                       | Raised e \<Rightarrow>
                           (Returned, shutdown_sequence env (log ERROR (ExternalTaskException e) s4))
                       | Returned \<Rightarrow> (Returned, shutdown_sequence env s4))
                 else if ShutdownEventWatcher \<in> set (wait_done env) then
                   (Returned, shutdown_sequence env (log INFO ShutdownTriggered s3))
                 else (Returned, shutdown_sequence env (log WARNING WaitReturnedUnexpectedly s3))))"

section \<open>Auxiliary definitions for the proofs\<close>

definition grows :: "(event \<Rightarrow> bool) \<Rightarrow> state \<Rightarrow> state \<Rightarrow> bool" where
  "grows H s s' = (\<exists>X. trace s' = trace s @ X \<and> list_all H X)"

fun session_msg :: "msg \<Rightarrow> bool" where
  "session_msg (RejectingNewClient _) = True"
| "session_msg (ClientConnected _ _ _) = True"
| "session_msg (ServerClosingClient _) = True"
| "session_msg (ClientClosedOK _) = True"
| "session_msg (ClientClosedWithError _ _) = True"
| "session_msg (UnexpectedClientError _ _) = True"
| "session_msg (ClientSessionEnded _ _) = True"
| "session_msg _ = False"

fun signal_msg :: "msg \<Rightarrow> bool" where
  "signal_msg (ReceivedOSSignal _) = True"
| "signal_msg ShutdownAlreadyInProgress = True"
| "signal_msg _ = False"

fun session_task :: "task \<Rightarrow> bool" where
  "session_task (ClientWait _) = True"
| "session_task (ClientShutdownListen _) = True"
| "session_task _ = False"

fun session_event :: "event \<Rightarrow> bool" where
  "session_event (Log l m) = session_msg m"
| "session_event (Close _ _ _) = True"
| "session_event (CreateTask t) = session_task t"
| "session_event (Cancel t) = session_task t"
| "session_event _ = False"

fun handler_event :: "event \<Rightarrow> bool" where
  "handler_event (Log l m) = (session_msg m \<or> signal_msg m)"
| "handler_event e = session_event e"

definition shared :: "state \<Rightarrow> client dlist \<times> bool \<times> (client \<Rightarrow> conn_state)" where
  "shared s = (CONNECTED_CLIENTS s, shutdown_event s, conn s)"

definition all_interleaved :: "gather_env \<Rightarrow> client list \<Rightarrow> task_event list" where
  "all_interleaved env cs = concat (map (interleaved env) cs) @ after_sends env"

definition open_clients :: "state \<Rightarrow> client list" where
  "open_clients s = filter (\<lambda>c. conn s c = OPEN) (list_of_dlist (CONNECTED_CLIENTS s))"

definition creation_event :: "state \<Rightarrow> client \<Rightarrow> event" where
  "creation_event s c = (if conn s c = OPEN then CreateTask (SendTo c) else Log WARNING (ClientWasClosed c))"

definition error_events :: "gather_env \<Rightarrow> client list \<Rightarrow> event list" where
  "error_events env cs =
     List.map_filter (\<lambda>c. map_option (\<lambda>e. Log ERROR (ErrorSending (SendTo c) e)) (send_result env c)) cs"

definition own_events :: "gather_env \<Rightarrow> string \<Rightarrow> state \<Rightarrow> event list" where
  "own_events env m s =
     (if m = [] then []
      else map (creation_event s) (list_of_dlist (CONNECTED_CLIENTS s))
           @ map (\<lambda>c. Send c m) (open_clients s)
           @ error_events env (open_clients s))"

definition broadcast_interleaved :: "gather_env \<Rightarrow> string \<Rightarrow> state \<Rightarrow> task_event list" where
  "broadcast_interleaved env m s =
     (if m = [] \<or> open_clients s = [] then [] else all_interleaved env (open_clients s))"

definition two_subscribers :: state where
  "two_subscribers = run_tasks [Accept 1 ''/'' None, Accept 2 ''/'' None] initial"

definition late_joiner :: gather_env where
  "late_joiner = \<lparr>interleaved = (\<lambda>c. if c = 1 then [Accept 3 ''/'' None] else []),
                  send_result = (\<lambda>c. if c = 2 then Some ConnectionClosedError else None),
                  after_sends = []\<rparr>"

definition failing_first :: gather_env where
  "failing_first = \<lparr>interleaved = (\<lambda>_. []),
                    send_result = (\<lambda>c. if c = 2 then Some ConnectionClosedError else None),
                    after_sends = []\<rparr>"

definition one_closed :: state where
  "one_closed = run_tasks [Accept 1 ''/'' None, ConnChange 1 CLOSED] initial"

definition client_left :: resume_env where
  "client_left = \<lparr>done_tasks = [ClientWait 1], close_outcome = None,
                  cancelled_await = (\<lambda>_. CancelledErr)\<rparr>"

definition events_since :: "state \<Rightarrow> state \<Rightarrow> event list" where
  "events_since s t = drop (length (trace s)) (trace t)"

definition adds :: "event list \<Rightarrow> state \<Rightarrow> state \<Rightarrow> bool" where
  "adds seq s t = (\<exists>X. trace t = trace s @ X \<and> subseq seq X)"

definition connector_crashed :: main_env where
  "connector_crashed =
     \<lparr>during_serve = [], serve_outcome = None,
      during_main_wait = [Accept 1 ''/'' None],
      wait_done = [ExternalDataReceiver], external_result = Raised OtherException,
      during_close = [Resume 1 \<lparr>done_tasks = [ClientShutdownListen 1], close_outcome = None,
                                cancelled_await = (\<lambda>_. CancelledErr)\<rparr>],
      close_timed_out = False, done_after_close = (\<lambda>_. False),
      during_final_wait = [], final_wait_timeout = False,
      done_after_wait = (\<lambda>_. True), awaited_cancelled = (\<lambda>_. CancelledErr)\<rparr>"

definition port_in_use :: main_env where
  "port_in_use = connector_crashed\<lparr>serve_outcome := Some (OSError (Some 10048))\<rparr>"

definition rejecting :: handler_env where
  "rejecting = \<lparr>accept_close = None, during_wait = [],
                resume = \<lparr>done_tasks = [], close_outcome = None,
                           cancelled_await = (\<lambda>_. CancelledErr)\<rparr>\<rparr>"

definition shutting_down :: state where
  "shutting_down = os_signal_handler 2 two_subscribers"

fun relay_msg :: "msg \<Rightarrow> bool" where
  "relay_msg (ClientWasClosed _) = True"
| "relay_msg (ErrorSending _ _) = True"
| "relay_msg ExternalClosedDuringReceive = True"
| "relay_msg (ErrorReceiving _) = True"
| "relay_msg m = (session_msg m \<or> signal_msg m)"

fun relay_task :: "task \<Rightarrow> bool" where
  "relay_task (SendTo _) = True"
| "relay_task t = session_task t"

fun relay_event :: "event \<Rightarrow> bool" where
  "relay_event (Log l m) = relay_msg m"
| "relay_event (Send c m) = (m \<noteq> [])"
| "relay_event (Close _ _ _) = True"
| "relay_event (CreateTask t) = relay_task t"
| "relay_event (Cancel t) = session_task t"
| "relay_event _ = False"




fun is_connect :: "event \<Rightarrow> bool" where
  "is_connect (Connect _) = True"
| "is_connect _ = False"

fun is_retry_wait :: "event \<Rightarrow> bool" where
  "is_retry_wait (WaitShutdown n _) = (n = 5)"
| "is_retry_wait _ = False"


definition arm :: "(event \<Rightarrow> bool) \<Rightarrow> bool \<Rightarrow> event \<Rightarrow> bool" where
  "arm trig a e = (if is_retry_wait e then False else if is_connect e then trig e else (a \<or> trig e))"

fun armed_after :: "(event \<Rightarrow> bool) \<Rightarrow> bool \<Rightarrow> event list \<Rightarrow> bool" where
  "armed_after trig a [] = a"
| "armed_after trig a (e # t) = armed_after trig (arm trig a e) t"

fun retry_guard :: "(event \<Rightarrow> bool) \<Rightarrow> bool \<Rightarrow> event list \<Rightarrow> bool" where
  "retry_guard trig a [] = True"
| "retry_guard trig a (e # t) = (\<not> (is_connect e \<and> a) \<and> retry_guard trig (arm trig a e) t)"

definition pre_connect :: "attempt \<Rightarrow> state \<Rightarrow> state" where
  "pre_connect a s =
     handle_signals (signals_before_connect a)
       (log INFO (AttemptingConnect EXTERNAL_WS_URI) (handle_signals (signals_after_test a) s))"

fun window_event :: "event \<Rightarrow> bool" where
  "window_event (Log l (ReceivedOSSignal _)) = True"
| "window_event (Log l ShutdownAlreadyInProgress) = True"
| "window_event (Log l (AttemptingConnect _)) = True"
| "window_event _ = False"








fun other_wait :: "event \<Rightarrow> bool" where
  "other_wait (WaitShutdown n _) = (n \<noteq> 5)"
| "other_wait _ = False"

definition quiet_env :: gather_env where
  "quiet_env = \<lparr>interleaved = (\<lambda>_. []), send_result = (\<lambda>_. None), after_sends = []\<rparr>"

definition refused :: attempt where
  "refused = \<lparr>signals_after_test = [], signals_before_connect = [], during_connect = [],
              connect_result = ConnectRaised (ConnectionRefusedError (Some 111)),
              during_retry_wait = [], retry_wait_cancelled = False\<rparr>"

definition flapping_upstream :: "attempt list" where
  "flapping_upstream =
     [refused,
      refused\<lparr>connect_result :=
                 Connected [RecvStep [] (Message ''A1'' quiet_env), RecvStep [] (Message [] quiet_env),
                            RecvStep [] (RecvRaised ConnectionClosedOK)] [] Returned,
              during_retry_wait := [OsSignal 2]\<rparr>]"



definition fresh_two :: state where
  "fresh_two = two_subscribers\<lparr>trace := []\<rparr>"

section \<open>Properties\<close>

lemma enabled_simps [simp]:
  "enabled DEBUG = False" "enabled INFO" "enabled WARNING" "enabled ERROR" "enabled CRITICAL"
  by (simp_all add: enabled_def)

lemma emit_fields [simp]:
  "CONNECTED_CLIENTS (emit e s) = CONNECTED_CLIENTS s"
  "shutdown_event (emit e s) = shutdown_event s"
  "conn (emit e s) = conn s"
  "trace (emit e s) = trace s @ [e]"
  by (simp_all add: emit_def)

lemma log_fields [simp]:
  "CONNECTED_CLIENTS (log l m s) = CONNECTED_CLIENTS s"
  "shutdown_event (log l m s) = shutdown_event s"
  "conn (log l m s) = conn s"
  "trace (log l m s) = (if enabled l then trace s @ [Log l m] else trace s)"
  by (simp_all add: log_def)

lemma log_DEBUG [simp]: "log DEBUG m s = s"
  by (simp add: log_def)

lemma grows_refl [simp]: "grows H s s"
  by (simp add: grows_def)

lemma grows_trans: "grows H s t \<Longrightarrow> grows H t u \<Longrightarrow> grows H s u"
  by (auto simp: grows_def)

lemma grows_emit: "H e \<Longrightarrow> grows H s t \<Longrightarrow> grows H s (emit e t)"
  by (auto simp: grows_def)

lemma grows_log: "H (Log l m) \<Longrightarrow> grows H s t \<Longrightarrow> grows H s (log l m t)"
  by (auto simp: grows_def)

lemma grows_upd [simp]:
  "grows H s (t\<lparr>CONNECTED_CLIENTS := r\<rparr>) = grows H s t"
  "grows H s (t\<lparr>shutdown_event := b\<rparr>) = grows H s t"
  "grows H s (t\<lparr>conn := f\<rparr>) = grows H s t"
  by (simp_all add: grows_def)

lemma grows_mono: "grows H s t \<Longrightarrow> (\<And>e. H e \<Longrightarrow> H' e) \<Longrightarrow> grows H' s t"
  by (auto simp: grows_def list_all_iff)

lemma grows_filter: "grows H s t \<Longrightarrow> (\<And>e. H e \<Longrightarrow> \<not> P e) \<Longrightarrow> filter P (trace t) = filter P (trace s)"
  by (auto simp: grows_def list_all_iff filter_empty_conv)

lemma grows_client_close:
  "grows session_event s t \<Longrightarrow> grows session_event s (snd (client_close c code reason out t))"
  by (simp add: client_close_def Let_def grows_emit split: option.splits)

lemma grows_enter:
  "grows session_event s t \<Longrightarrow> grows session_event s (snd (register_client_enter c path out t))"
  by (simp add: register_client_enter_def client_close_def Let_def grows_emit grows_log
      split: option.splits)

lemma grows_cancel_pending:
  "grows session_event s t \<Longrightarrow> list_all session_task ts \<Longrightarrow>
   grows session_event s (snd (cancel_pending aw ts t))"
  by (induction ts arbitrary: t) (simp_all add: Let_def grows_emit split: coro_result.splits)

lemma pending_tasks_session: "list_all session_task (pending_tasks c dn)"
  by (simp add: pending_tasks_def)

lemma grows_close_on_shutdown:
  "grows session_event s t \<Longrightarrow> grows session_event s (snd (close_on_shutdown c env t))"
  by (simp add: close_on_shutdown_def Let_def client_close_def grows_emit grows_log
      split: option.splits)

lemma grows_handler_body:
  "grows session_event s t \<Longrightarrow> grows session_event s (snd (handler_body c env t))"
  using grows_close_on_shutdown [of s t c env]
  by (cases "close_on_shutdown c env t")
     (simp add: handler_body_def pending_tasks_session grows_cancel_pending split: option.splits)

lemma grows_resume:
  "grows session_event s t \<Longrightarrow> grows session_event s (register_client_resume c env t)"
proof -
  assume g: "grows session_event s t"
  obtain exc s1 where hb: "handler_body c env t = (exc, s1)"
    by (cases "handler_body c env t")
  from grows_handler_body [OF g, of c env] hb have "grows session_event s s1"
    by simp
  with hb show ?thesis
    by (simp add: register_client_resume_def Let_def grows_log split: option.splits)
qed

lemma session_handler: "session_event e \<Longrightarrow> handler_event e"
  by (cases e) simp_all

lemma grows_signal:
  "grows handler_event s t \<Longrightarrow> grows handler_event s (os_signal_handler sig t)"
  by (simp add: os_signal_handler_def Let_def grows_log)

lemma grows_session_handler:
  "grows handler_event s t \<Longrightarrow> grows session_event t u \<Longrightarrow> grows handler_event s u"
  by (rule grows_trans, assumption) (rule grows_mono, assumption, rule session_handler)

lemma grows_apply:
  "grows handler_event s t \<Longrightarrow> grows handler_event s (apply_task_event ev t)"
proof (cases ev)
  case (Accept c path out)
  assume "grows handler_event s t"
  from grows_session_handler [OF this grows_enter [OF grows_refl]] show ?thesis
    by (simp add: Accept)
next
  case (Resume c env)
  assume "grows handler_event s t"
  from grows_session_handler [OF this grows_resume [OF grows_refl]] show ?thesis
    by (simp add: Resume)
qed (simp_all add: grows_signal)

lemma grows_run_tasks:
  "grows handler_event s t \<Longrightarrow> grows handler_event s (run_tasks evs t)"
  by (induction evs arbitrary: t) (simp_all add: grows_apply)

lemma filter_run_tasks:
  "(\<And>e. handler_event e \<Longrightarrow> \<not> P e) \<Longrightarrow> filter P (trace (run_tasks evs s)) = filter P (trace s)"
  using grows_run_tasks [of s s evs] by (rule grows_filter [OF _]) simp_all

subsection \<open>The flag\<close>

lemma flag_client_close [simp]:
  "shutdown_event (snd (client_close c code reason out s)) = shutdown_event s"
  by (simp add: client_close_def Let_def split: option.splits)

lemma flag_enter [simp]:
  "shutdown_event (snd (register_client_enter c path out s)) = shutdown_event s"
  by (simp add: register_client_enter_def client_close_def Let_def split: option.splits)

lemma flag_cancel_pending [simp]:
  "shutdown_event (snd (cancel_pending aw ts s)) = shutdown_event s"
  by (induction ts arbitrary: s) (simp_all add: Let_def split: coro_result.splits)

lemma flag_close_on_shutdown [simp]:
  "shutdown_event (snd (close_on_shutdown c env s)) = shutdown_event s"
  by (simp add: close_on_shutdown_def client_close_def Let_def split: option.splits)

lemma flag_handler_body [simp]:
  "shutdown_event (snd (handler_body c env s)) = shutdown_event s"
  using flag_close_on_shutdown [of c env s] flag_cancel_pending
  by (cases "close_on_shutdown c env s") (simp add: handler_body_def split: option.splits)

lemma flag_resume [simp]:
  "shutdown_event (register_client_resume c env s) = shutdown_event s"
proof -
  obtain exc s1 where hb: "handler_body c env s = (exc, s1)"
    by (cases "handler_body c env s")
  from flag_handler_body [of c env s] hb have "shutdown_event s1 = shutdown_event s"
    by simp
  with hb show ?thesis
    by (simp add: register_client_resume_def Let_def split: option.splits)
qed

lemma flag_signal [simp]: "shutdown_event (os_signal_handler sig s)"
  by (simp add: os_signal_handler_def Let_def)

lemma flag_apply: "shutdown_event s \<Longrightarrow> shutdown_event (apply_task_event ev s)"
  by (cases ev) simp_all

lemma flag_run_tasks: "shutdown_event s \<Longrightarrow> shutdown_event (run_tasks evs s)"
  by (induction evs arbitrary: s) (simp_all add: flag_apply)

subsection \<open>shared state does not depend on the trace\<close>

lemma shared_emit [simp]: "shared (emit e s) = shared s"
  by (simp add: shared_def)

lemma shared_log [simp]: "shared (log l m s) = shared s"
  by (simp add: shared_def)

lemma shared_client_close:
  "shared s = shared t \<Longrightarrow>
   shared (snd (client_close c code reason out s)) = shared (snd (client_close c code reason out t))
   \<and> fst (client_close c code reason out s) = fst (client_close c code reason out t)"
  by (simp add: shared_def client_close_def Let_def split: option.splits)

lemma shared_enter:
  "shared s = shared t \<Longrightarrow>
   shared (snd (register_client_enter c path out s)) = shared (snd (register_client_enter c path out t))"
  by (simp add: shared_def register_client_enter_def client_close_def Let_def split: option.splits)

lemma shared_cancel_pending:
  "shared s = shared t \<Longrightarrow>
   shared (snd (cancel_pending aw ts s)) = shared (snd (cancel_pending aw ts t))
   \<and> fst (cancel_pending aw ts s) = fst (cancel_pending aw ts t)"
proof (induction ts arbitrary: s t)
  case Nil
  then show ?case by simp
next
  case (Cons a ts)
  have e: "shared (emit (Cancel a) s) = shared (emit (Cancel a) t)"
    using Cons.prems by simp
  note ih = Cons.IH [OF e]
  show ?case
  proof (cases "aw a")
    case (Raised x)
    then show ?thesis using e by simp
  next
    case Returned
    then show ?thesis using ih by simp
  next
    case CancelledErr
    then show ?thesis using ih by simp
  qed
qed

lemma shared_close_on_shutdown:
  "shared s = shared t \<Longrightarrow>
   shared (snd (close_on_shutdown c env s)) = shared (snd (close_on_shutdown c env t))
   \<and> fst (close_on_shutdown c env s) = fst (close_on_shutdown c env t)"
  by (simp add: shared_def close_on_shutdown_def client_close_def Let_def split: option.splits)

lemma shared_handler_body:
  assumes "shared s = shared t"
  shows "shared (snd (handler_body c env s)) = shared (snd (handler_body c env t))
         \<and> fst (handler_body c env s) = fst (handler_body c env t)"
proof -
  note 1 = shared_close_on_shutdown [OF assms, of c env]
  show ?thesis
  proof (cases "fst (close_on_shutdown c env s)")
    case None
    with 1 have "fst (close_on_shutdown c env t) = None" by simp
    with None shared_cancel_pending [of "snd (close_on_shutdown c env s)"
        "snd (close_on_shutdown c env t)" "cancelled_await env" "pending_tasks c (done_tasks env)"] 1
    show ?thesis by (simp add: handler_body_def split_def)
  next
    case (Some e)
    with 1 have "fst (close_on_shutdown c env t) = Some e" by simp
    with Some 1 show ?thesis by (simp add: handler_body_def split_def)
  qed
qed

lemma shared_resume:
  assumes "shared s = shared t"
  shows "shared (register_client_resume c env s) = shared (register_client_resume c env t)"
proof -
  obtain r s1 where fs: "handler_body c env s = (r, s1)" by (cases "handler_body c env s")
  obtain r' t1 where ft: "handler_body c env t = (r', t1)" by (cases "handler_body c env t")
  from shared_handler_body [OF assms, of c env] fs ft have eq: "r' = r" "shared s1 = shared t1"
    by simp_all
  from eq(2) have "CONNECTED_CLIENTS s1 = CONNECTED_CLIENTS t1"
     "shutdown_event s1 = shutdown_event t1" "conn s1 = conn t1"
    by (simp_all add: shared_def)
  then show ?thesis
    by (simp add: register_client_resume_def fs ft eq(1) Let_def shared_def split: option.splits)
qed

lemma shared_signal:
  "shared s = shared t \<Longrightarrow> shared (os_signal_handler sig s) = shared (os_signal_handler sig t)"
  by (simp add: os_signal_handler_def Let_def shared_def)

lemma shared_apply:
  assumes "shared s = shared t"
  shows "shared (apply_task_event ev s) = shared (apply_task_event ev t)"
proof (cases ev)
  case (Accept c path out)
  with shared_enter [OF assms] show ?thesis by simp
next
  case (Resume c env)
  with shared_resume [OF assms] show ?thesis by simp
next
  case (ConnChange c st)
  with assms show ?thesis by (simp add: shared_def)
next
  case (OsSignal sig)
  with shared_signal [OF assms] show ?thesis by simp
qed

lemma shared_run_tasks:
  "shared s = shared t \<Longrightarrow> shared (run_tasks evs s) = shared (run_tasks evs t)"
proof (induction evs arbitrary: s t)
  case Nil
  then show ?case by simp
next
  case (Cons ev evs)
  from Cons.IH [OF shared_apply [OF Cons.prems]] show ?case by simp
qed

lemma run_tasks_append: "run_tasks (xs @ ys) s = run_tasks ys (run_tasks xs s)"
  by (induction xs arbitrary: s) simp_all

lemma fst_create:
  "fst (create_send_tasks m cs s) = map (\<lambda>c. (c, m)) (filter (\<lambda>c. conn s c = OPEN) cs)"
  by (induction cs arbitrary: s) (simp_all add: split_def Let_def)

lemma shared_create [simp]: "shared (snd (create_send_tasks m cs s)) = shared s"
  by (induction cs arbitrary: s) (simp_all add: split_def Let_def)

lemma conn_same: "shared s = shared t \<Longrightarrow> conn s = conn t"
  by (simp add: shared_def)

lemma trace_create:
  "trace (snd (create_send_tasks m cs s)) = trace s @ map (creation_event s) cs"
proof (induction cs arbitrary: s)
  case Nil
  then show ?case by simp
next
  case (Cons c cs)
  have "creation_event (emit e s) = creation_event s" for e
    by (rule ext) (simp add: creation_event_def)
  moreover have "creation_event (log l x s) = creation_event s" for l x
    by (rule ext) (simp add: creation_event_def)
  ultimately show ?case
    using Cons.IH by (simp add: split_def Let_def creation_event_def)
qed

lemma fst_run_sends: "fst (run_sends env ts s) = map (\<lambda>t. send_result env (fst t)) ts"
proof (induction ts arbitrary: s)
  case Nil
  then show ?case by simp
next
  case (Cons t ts)
  obtain c m where t: "t = (c, m)" by (cases t)
  show ?case by (simp add: t split_def Let_def Cons.IH)
qed

lemma shared_run_sends:
  "shared (snd (run_sends env ts s)) = shared (run_tasks (concat (map (\<lambda>t. interleaved env (fst t)) ts)) s)"
proof (induction ts arbitrary: s)
  case Nil
  then show ?case by simp
next
  case (Cons t ts)
  obtain c m where t: "t = (c, m)" by (cases t)
  have "shared (emit (Send c m) (run_tasks (interleaved env c) s)) = shared (run_tasks (interleaved env c) s)"
    by simp
  from shared_run_tasks [OF this]
  show ?case
    by (simp add: t split_def Let_def Cons.IH run_tasks_append)
qed

lemma count_grows:
  "grows H s t \<Longrightarrow> \<not> H e \<Longrightarrow> count_list (trace t) e = count_list (trace s) e"
  by (auto simp: grows_def list_all_iff)

lemma count_run_tasks:
  "\<not> handler_event e \<Longrightarrow> count_list (trace (run_tasks evs s)) e = count_list (trace s) e"
  using grows_run_tasks [of s s evs] by (simp add: count_grows)

lemma count_run_sends:
  "\<not> handler_event e \<Longrightarrow>
   count_list (trace (snd (run_sends env ts s))) e
     = count_list (trace s) e + count_list (map (\<lambda>t. Send (fst t) (snd t)) ts) e"
proof (induction ts arbitrary: s)
  case Nil
  then show ?case by simp
next
  case (Cons t ts)
  obtain c m where t: "t = (c, m)" by (cases t)
  show ?case
    using Cons.prems by (simp add: t split_def Let_def Cons.IH count_run_tasks)
qed

lemma shared_report [simp]: "shared (report_errors xs s) = shared s"
  by (induction xs s rule: report_errors.induct) (simp_all split: option.splits)

lemma trace_report:
  "trace (report_errors xs s)
     = trace s @ List.map_filter (\<lambda>x. map_option (\<lambda>e. Log ERROR (ErrorSending (SendTo (fst (fst x))) e)) (snd x)) xs"
  by (induction xs s rule: report_errors.induct) (simp_all add: List.map_filter_simps split: option.splits)

lemma gather_True:
  "gather True env ts s =
     (Inr (map (\<lambda>t. send_result env (fst t)) ts),
      run_tasks (after_sends env) (snd (run_sends env ts s)))"
  using fst_run_sends [of env ts s]
  by (cases "run_sends env ts s") (simp add: gather_def Let_def)

lemma broadcast_empty [simp]: "broadcast_message env [] s = (None, s)"
  by (simp add: broadcast_message_def)

lemma broadcast_no_clients:
  "Dlist.null (CONNECTED_CLIENTS s) \<Longrightarrow> broadcast_message env m s = (None, s)"
  by (simp add: broadcast_message_def)

lemma open_clients_Nil_iff:
  "(fst (create_send_tasks m (list_of_dlist (CONNECTED_CLIENTS s)) s) = []) = (open_clients s = [])"
  by (simp add: fst_create open_clients_def)

lemma broadcast_none_open:
  "m \<noteq> [] \<Longrightarrow> open_clients s = [] \<Longrightarrow>
   broadcast_message env m s = (None, snd (create_send_tasks m (list_of_dlist (CONNECTED_CLIENTS s)) s))"
  using open_clients_Nil_iff [of m s]
  by (cases "create_send_tasks m (list_of_dlist (CONNECTED_CLIENTS s)) s")
     (auto simp: broadcast_message_def Let_def Dlist.null_def open_clients_def)

lemma broadcast_some_open:
  assumes "m \<noteq> []" "open_clients s \<noteq> []"
  shows "broadcast_message env m s =
     (None,
      report_errors (map (\<lambda>c. ((c, m), send_result env c)) (open_clients s))
        (run_tasks (after_sends env)
          (snd (run_sends env (map (\<lambda>c. (c, m)) (open_clients s))
                 (snd (create_send_tasks m (list_of_dlist (CONNECTED_CLIENTS s)) s))))))"
proof -
  obtain ts s2 where c: "create_send_tasks m (list_of_dlist (CONNECTED_CLIENTS s)) s = (ts, s2)"
    by (cases "create_send_tasks m (list_of_dlist (CONNECTED_CLIENTS s)) s")
  from fst_create [of m "list_of_dlist (CONNECTED_CLIENTS s)" s] c
  have ts: "ts = map (\<lambda>c. (c, m)) (open_clients s)"
    by (simp add: open_clients_def)
  have z: "zip ts (map (\<lambda>t. send_result env (fst t)) ts)
             = map (\<lambda>c. ((c, m), send_result env c)) (open_clients s)"
    by (simp add: ts zip_map_map zip_same_conv_map comp_def)
  from assms(2) have nn: "\<not> Dlist.null (CONNECTED_CLIENTS s)"
    by (auto simp: open_clients_def Dlist.null_def)
  from assms(2) have tsn: "ts \<noteq> []" by (simp add: ts)
  show ?thesis
    using assms(1) nn tsn
    by (simp add: broadcast_message_def c gather_True z) (simp add: ts)
qed

lemma fst_broadcast [simp]: "fst (broadcast_message env m s) = None"
proof (cases "m = []")
  case True
  then show ?thesis by simp
next
  case False
  then show ?thesis
    by (cases "open_clients s = []") (simp_all add: broadcast_none_open broadcast_some_open)
qed

lemma shared_broadcast:
  "shared (snd (broadcast_message env m s)) = shared (run_tasks (broadcast_interleaved env m s) s)"
proof (cases "m = []")
  case True
  then show ?thesis by (simp add: broadcast_interleaved_def)
next
  case False
  show ?thesis
  proof (cases "open_clients s = []")
    case True
    with False show ?thesis by (simp add: broadcast_none_open broadcast_interleaved_def)
  next
    case op: False
    let ?s2 = "snd (create_send_tasks m (list_of_dlist (CONNECTED_CLIENTS s)) s)"
    let ?ts = "map (\<lambda>c. (c, m)) (open_clients s)"
    have 1: "shared (snd (run_sends env ?ts ?s2))
               = shared (run_tasks (concat (map (interleaved env) (open_clients s))) ?s2)"
      by (simp add: shared_run_sends comp_def)
    have 2: "shared (run_tasks (concat (map (interleaved env) (open_clients s))) ?s2)
               = shared (run_tasks (concat (map (interleaved env) (open_clients s))) s)"
      by (rule shared_run_tasks) simp
    from shared_run_tasks [OF trans [OF 1 2], of "after_sends env"]
    show ?thesis
      using False op
      by (simp add: broadcast_some_open broadcast_interleaved_def all_interleaved_def run_tasks_append)
  qed
qed

lemma count_map_filter_error:
  "count_list (List.map_filter (\<lambda>x. map_option (\<lambda>e. Log ERROR (ErrorSending (SendTo (fst (fst x))) e)) (snd x))
       (map (\<lambda>c. ((c, m), send_result env c)) cs)) e
   = count_list (error_events env cs) e"
  by (induction cs) (simp_all add: error_events_def List.map_filter_simps split: option.splits)

lemma count_broadcast:
  assumes "\<not> handler_event e"
  shows "count_list (trace (snd (broadcast_message env m s))) e
           = count_list (trace s) e + count_list (own_events env m s) e"
proof (cases "m = []")
  case True
  then show ?thesis by (simp add: own_events_def)
next
  case False
  show ?thesis
  proof (cases "open_clients s = []")
    case True
    with False show ?thesis
      by (simp add: broadcast_none_open own_events_def trace_create error_events_def
          List.map_filter_simps)
  next
    case op: False
    show ?thesis
      using False op assms
      by (simp add: broadcast_some_open own_events_def trace_report count_run_tasks
          count_run_sends trace_create count_map_filter_error comp_def)
  qed
qed

lemma count_distinct: "distinct xs \<Longrightarrow> count_list xs x = (if x \<in> set xs then 1 else 0)"
  by (induction xs) auto

lemma count_map_Send:
  "count_list (map (\<lambda>c. Send c m) cs) (Send c m') = (if m' = m then count_list cs c else 0)"
  by (induction cs) auto

lemma count_creation_Send: "count_list (map (creation_event s) cs) (Send c m') = 0"
  by (induction cs) (auto simp: creation_event_def)

lemma count_error_Send: "count_list (error_events env cs) (Send c m') = 0"
  by (induction cs) (auto simp: error_events_def List.map_filter_simps split: option.splits)

lemma count_creation_warning:
  "count_list (map (creation_event s) cs) (Log WARNING (ClientWasClosed c))
     = count_list (filter (\<lambda>c. conn s c \<noteq> OPEN) cs) c"
  by (induction cs) (auto simp: creation_event_def)

lemma count_map_Send_warning: "count_list (map (\<lambda>c. Send c m) cs) (Log l x) = 0"
  by (induction cs) auto

lemma count_error_warning: "count_list (error_events env cs) (Log WARNING x) = 0"
  by (induction cs) (auto simp: error_events_def List.map_filter_simps split: option.splits)

lemma count_creation_error: "count_list (map (creation_event s) cs) (Log ERROR x) = 0"
  by (induction cs) (auto simp: creation_event_def)

lemma count_error_events:
  "count_list (error_events env cs) (Log ERROR (ErrorSending (SendTo a) e))
     = count_list (filter (\<lambda>c. send_result env c = Some e) cs) a"
  by (induction cs) (auto simp: error_events_def List.map_filter_simps split: option.splits)

lemma distinct_open_clients [simp]: "distinct (open_clients s)"
  by (simp add: open_clients_def)

lemma set_open_clients:
  "(c \<in> set (open_clients s)) = (Dlist.member (CONNECTED_CLIENTS s) c \<and> conn s c = OPEN)"
  by (auto simp: open_clients_def Dlist.member_def)

lemma count_own_Send:
  "m \<noteq> [] \<Longrightarrow>
   count_list (own_events env m s) (Send c m')
     = (if m' = m \<and> Dlist.member (CONNECTED_CLIENTS s) c \<and> conn s c = OPEN then 1 else 0)"
  by (simp add: own_events_def count_creation_Send count_error_Send count_map_Send
      count_distinct set_open_clients)

text \<open>
  Claim C1. A broadcast of a non-empty message takes its recipients from the registry as it
  is when the call starts: for every subscriber \<open>c\<close> and message \<open>m\<close>, the number of sends of
  \<open>m\<close> to \<open>c\<close> grows by exactly one when \<open>m\<close> is the broadcast message and \<open>c\<close> is in the
  registry and Active at the start, and does not grow otherwise, whatever handlers add to
  or remove from the registry while the sends are awaited.
\<close>

theorem broadcast_snapshot_exactly_once:
  assumes "message_str \<noteq> []"
  shows "count_list (trace (snd (broadcast_message env message_str s))) (Send c m)
           = count_list (trace s) (Send c m)
             + (if m = message_str \<and> Dlist.member (CONNECTED_CLIENTS s) c \<and> conn s c = OPEN
                then 1 else 0)"
  using assms by (simp add: count_broadcast count_own_Send)

lemma two_subscribers_fields:
  "list_of_dlist (CONNECTED_CLIENTS two_subscribers) = [2, 1]"
  "conn two_subscribers = (\<lambda>_. OPEN)"
  "shutdown_event two_subscribers = False"
  "trace two_subscribers =
     [Log INFO (ClientConnected 1 ''/'' 1), CreateTask (ClientWait 1), CreateTask (ClientShutdownListen 1),
      Log INFO (ClientConnected 2 ''/'' 2), CreateTask (ClientWait 2), CreateTask (ClientShutdownListen 2)]"
  by (simp_all add: two_subscribers_def initial_def register_client_enter_def Let_def Dlist.length_def)

lemma count_own_error:
  "m \<noteq> [] \<Longrightarrow>
   count_list (own_events env m s) (Log ERROR (ErrorSending (SendTo a) e))
     = (if Dlist.member (CONNECTED_CLIENTS s) a \<and> conn s a = OPEN \<and> send_result env a = Some e
        then 1 else 0)"
  by (simp add: own_events_def count_creation_error count_map_Send_warning count_error_events
      count_distinct set_open_clients)

lemma count_own_warning:
  "m \<noteq> [] \<Longrightarrow>
   count_list (own_events env m s) (Log WARNING (ClientWasClosed c))
     = (if Dlist.member (CONNECTED_CLIENTS s) c \<and> conn s c \<noteq> OPEN then 1 else 0)"
  by (simp add: own_events_def count_creation_warning count_map_Send_warning count_error_warning
      count_distinct Dlist.member_def)

lemma registry_broadcast:
  "CONNECTED_CLIENTS (snd (broadcast_message env m s))
     = CONNECTED_CLIENTS (run_tasks (broadcast_interleaved env m s) s)"
  using shared_broadcast [of env m s] by (simp add: shared_def)

theorem broadcast_snapshot_exactly_once_witness:
  "''A1:LAT=1,LON=2'' \<noteq> []
   \<and> count_list (trace (snd (broadcast_message late_joiner ''A1:LAT=1,LON=2'' two_subscribers)))
        (Send 1 ''A1:LAT=1,LON=2'') = 1
   \<and> count_list (trace (snd (broadcast_message late_joiner ''A1:LAT=1,LON=2'' two_subscribers)))
        (Send 2 ''A1:LAT=1,LON=2'') = 1
   \<and> count_list (trace (snd (broadcast_message late_joiner ''A1:LAT=1,LON=2'' two_subscribers)))
        (Send 3 ''A1:LAT=1,LON=2'') = 0
   \<and> list_of_dlist (CONNECTED_CLIENTS
         (snd (broadcast_message late_joiner ''A1:LAT=1,LON=2'' two_subscribers))) = [3, 2, 1]"
  using broadcast_snapshot_exactly_once [of "''A1:LAT=1,LON=2''" late_joiner two_subscribers 1 "''A1:LAT=1,LON=2''"]
        broadcast_snapshot_exactly_once [of "''A1:LAT=1,LON=2''" late_joiner two_subscribers 2 "''A1:LAT=1,LON=2''"]
        broadcast_snapshot_exactly_once [of "''A1:LAT=1,LON=2''" late_joiner two_subscribers 3 "''A1:LAT=1,LON=2''"]
  by (simp add: two_subscribers_fields Dlist.member_def registry_broadcast broadcast_interleaved_def
      open_clients_def all_interleaved_def late_joiner_def register_client_enter_def Let_def)

text \<open>
  Claim C2. Within one broadcast, a send that raises for subscriber \<open>a\<close> does not stop the
  send to another subscriber \<open>b\<close> of the snapshot: the call returns without an exception, the
  send to \<open>b\<close> is run exactly once, the failure is logged once at level ERROR with the name
  of the failing task, and the registry after the call is what the handler blocks that ran
  during the call made of it, so the failure itself removes nobody.
\<close>

theorem send_failure_is_isolated:
  assumes "message_str \<noteq> []"
    and "Dlist.member (CONNECTED_CLIENTS s) a" and "conn s a = OPEN"
    and "Dlist.member (CONNECTED_CLIENTS s) b" and "conn s b = OPEN"
    and "send_result env a = Some e"
  shows "fst (broadcast_message env message_str s) = None
       \<and> count_list (trace (snd (broadcast_message env message_str s))) (Send b message_str)
           = count_list (trace s) (Send b message_str) + 1
       \<and> count_list (trace (snd (broadcast_message env message_str s)))
             (Log ERROR (ErrorSending (SendTo a) e))
           = count_list (trace s) (Log ERROR (ErrorSending (SendTo a) e)) + 1
       \<and> CONNECTED_CLIENTS (snd (broadcast_message env message_str s))
           = CONNECTED_CLIENTS (run_tasks (broadcast_interleaved env message_str s) s)"
  using assms by (simp add: count_broadcast count_own_Send count_own_error registry_broadcast)

theorem send_failure_is_isolated_witness:
  "''A1'' \<noteq> []
   \<and> Dlist.member (CONNECTED_CLIENTS two_subscribers) 2 \<and> conn two_subscribers 2 = OPEN
   \<and> Dlist.member (CONNECTED_CLIENTS two_subscribers) 1 \<and> conn two_subscribers 1 = OPEN
   \<and> send_result failing_first 2 = Some ConnectionClosedError
   \<and> fst (broadcast_message failing_first ''A1'' two_subscribers) = None
   \<and> count_list (trace (snd (broadcast_message failing_first ''A1'' two_subscribers))) (Send 1 ''A1'') = 1
   \<and> count_list (trace (snd (broadcast_message failing_first ''A1'' two_subscribers)))
        (Log ERROR (ErrorSending (SendTo 2) ConnectionClosedError)) = 1
   \<and> list_of_dlist (CONNECTED_CLIENTS (snd (broadcast_message failing_first ''A1'' two_subscribers))) = [2, 1]"
  using send_failure_is_isolated [of "''A1''" two_subscribers 2 1 failing_first ConnectionClosedError]
  by (simp add: two_subscribers_fields Dlist.member_def failing_first_def broadcast_interleaved_def
      open_clients_def all_interleaved_def)

text \<open>
  Claim C6, as stated, fails: after a subscriber's connection has closed and before its
  handler resumes, the subscriber is in the registry and is not Active.
\<close>

theorem registry_iff_active_counterexample:
  "\<not> (Dlist.member (CONNECTED_CLIENTS (run_tasks [Accept 1 ''/'' None, ConnChange 1 CLOSED] initial)) 1
       \<longleftrightarrow> conn (run_tasks [Accept 1 ''/'' None, ConnChange 1 CLOSED] initial) 1 = OPEN)"
  by (simp add: initial_def register_client_enter_def Let_def Dlist.member_def)

text \<open>
  Claim C6, amended. A handler that starts while the shutdown flag is unset puts its
  subscriber into the registry, and a handler that resumes from its wait takes it out before
  it ends; in between the subscriber may have stopped being Active. A broadcast makes no
  send attempt to a subscriber that is not Active when the broadcast starts, whatever the
  message: a registered one is skipped with exactly one warning.
\<close>

theorem inactive_subscriber_is_skipped:
  "(\<not> shutdown_event s \<longrightarrow>
      Dlist.member (CONNECTED_CLIENTS (snd (register_client_enter c path out s))) c)
   \<and> \<not> Dlist.member (CONNECTED_CLIENTS (register_client_resume c renv s)) c
   \<and> (conn s c \<noteq> OPEN \<longrightarrow>
        count_list (trace (snd (broadcast_message env message_str s))) (Send c m)
          = count_list (trace s) (Send c m))
   \<and> (conn s c \<noteq> OPEN \<and> message_str \<noteq> [] \<and> Dlist.member (CONNECTED_CLIENTS s) c \<longrightarrow>
        count_list (trace (snd (broadcast_message env message_str s))) (Log WARNING (ClientWasClosed c))
          = count_list (trace s) (Log WARNING (ClientWasClosed c)) + 1)"
proof -
  have 1: "\<not> shutdown_event s \<longrightarrow>
      Dlist.member (CONNECTED_CLIENTS (snd (register_client_enter c path out s))) c"
    by (simp add: register_client_enter_def Let_def Dlist.member_def)
  have 2: "\<not> Dlist.member (CONNECTED_CLIENTS (register_client_resume c renv s)) c"
    by (cases "handler_body c renv s")
       (simp add: register_client_resume_def Let_def Dlist.member_def split: option.splits)
  have 3: "conn s c \<noteq> OPEN \<longrightarrow>
        count_list (trace (snd (broadcast_message env message_str s))) (Send c m)
          = count_list (trace s) (Send c m)"
    by (cases "message_str = []") (simp_all add: count_broadcast count_own_Send)
  have 4: "conn s c \<noteq> OPEN \<and> message_str \<noteq> [] \<and> Dlist.member (CONNECTED_CLIENTS s) c \<longrightarrow>
        count_list (trace (snd (broadcast_message env message_str s))) (Log WARNING (ClientWasClosed c))
          = count_list (trace s) (Log WARNING (ClientWasClosed c)) + 1"
    by (simp add: count_broadcast count_own_warning)
  from 1 2 3 4 show ?thesis by blast
qed

lemma one_closed_fields:
  "list_of_dlist (CONNECTED_CLIENTS one_closed) = [1]"
  "conn one_closed = (\<lambda>_. OPEN)(1 := CLOSED)"
  "shutdown_event one_closed = False"
  "trace one_closed =
     [Log INFO (ClientConnected 1 ''/'' 1), CreateTask (ClientWait 1), CreateTask (ClientShutdownListen 1)]"
  by (simp_all add: one_closed_def initial_def register_client_enter_def Let_def Dlist.length_def)

theorem inactive_subscriber_is_skipped_witness:
  "\<not> shutdown_event one_closed
   \<and> Dlist.member (CONNECTED_CLIENTS (snd (register_client_enter 1 ''/'' None one_closed))) 1
   \<and> \<not> Dlist.member (CONNECTED_CLIENTS (register_client_resume 1 client_left one_closed)) 1
   \<and> conn one_closed 1 \<noteq> OPEN \<and> ''A1'' \<noteq> [] \<and> Dlist.member (CONNECTED_CLIENTS one_closed) 1
   \<and> count_list (trace (snd (broadcast_message failing_first ''A1'' one_closed))) (Send 1 ''A1'') = 0
   \<and> count_list (trace (snd (broadcast_message failing_first ''A1'' one_closed)))
        (Log WARNING (ClientWasClosed 1)) = 1"
  using inactive_subscriber_is_skipped
          [of one_closed 1 "''/''" None client_left failing_first "''A1''" "''A1''"]
  by (simp add: one_closed_fields Dlist.member_def)

lemma adds_refl [simp]: "adds [] s s"
  by (simp add: adds_def)

lemma adds_trans: "adds xs s t \<Longrightarrow> adds ys t u \<Longrightarrow> adds (xs @ ys) s u"
  by (auto simp: adds_def intro: list_emb_append_mono)

lemma adds_emit: "adds [e] s (emit e s)"
  by (simp add: adds_def)

lemma adds_log: "enabled l \<Longrightarrow> adds [Log l m] s (log l m s)"
  by (simp add: adds_def)

lemma adds_grows: "grows H s t \<Longrightarrow> adds [] s t"
  by (auto simp: adds_def grows_def)

lemma adds_upd [simp]:
  "adds xs s (t\<lparr>shutdown_event := b\<rparr>) = adds xs s t"
  by (simp add: adds_def)

lemma adds_weaken: "adds xs s t \<Longrightarrow> subseq ys xs \<Longrightarrow> adds ys s t"
  by (auto simp: adds_def intro: subseq_order.order_trans)

lemma adds_since: "adds xs s t \<Longrightarrow> subseq xs (events_since s t)"
  by (auto simp: adds_def events_since_def)

lemma adds_run_tasks: "adds [] s (run_tasks evs s)"
  using grows_run_tasks [OF grows_refl] by (rule adds_grows)

lemma grows_cancel_all: "grows (\<lambda>e. True) s t \<Longrightarrow> grows (\<lambda>e. True) s (cancel_all ts t)"
  by (induction ts arbitrary: t) (simp_all add: grows_emit)

lemma grows_any: "grows H s t \<Longrightarrow> grows (\<lambda>e. True) s t"
  by (rule grows_mono) simp_all

lemma grows_force_cancel:
  "grows (\<lambda>e. True) s t \<Longrightarrow> grows (\<lambda>e. True) s (force_cancel env ts t)"
  by (induction ts arbitrary: t)
     (simp_all add: grows_emit grows_log Let_def split: coro_result.splits)

lemma flag_cancel_all [simp]: "shutdown_event (cancel_all ts s) = shutdown_event s"
  by (induction ts arbitrary: s) simp_all

lemma flag_force_cancel [simp]: "shutdown_event (force_cancel env ts s) = shutdown_event s"
  by (induction ts arbitrary: s) (simp_all add: Let_def split: coro_result.splits)

lemma flag_set_shutdown [simp]: "shutdown_event (set_shutdown s)"
  by (simp add: set_shutdown_def)

lemma flag_shutdown_sequence [simp]: "shutdown_event (shutdown_sequence env s)"
  by (simp add: shutdown_sequence_def Let_def flag_run_tasks)

lemma adds_set_shutdown [simp]: "adds xs s (set_shutdown t) = adds xs s t"
  by (simp add: set_shutdown_def)

lemma adds_shutdown_sequence:
  "adds ([Log INFO InitiatingShutdown, Log INFO ClosingLocalServer, ServerClose]
         @ (if tasks_to_await env \<noteq> [] then [Log INFO (WaitingForMainTasks (tasks_to_await env))] else [])
         @ [Log INFO ShutdownComplete])
     s (shutdown_sequence env s)"
proof -
  define s1 where "s1 = set_shutdown (log INFO InitiatingShutdown s)"
  define s2 where "s2 = cancel_all (main_pending env) s1"
  define s3 where "s3 = emit ServerClose (log INFO ClosingLocalServer s2)"
  define s4 where "s4 = run_tasks (during_close env) s3"
  define s5 where "s5 = (if close_timed_out env then log WARNING TimeoutClosingServer s4
                else log INFO ServerClosed s4)"
  define s6 where "s6 = (if tasks_to_await env \<noteq> [] then
                  (let s7 = run_tasks (during_final_wait env)
                              (log INFO (WaitingForMainTasks (tasks_to_await env)) s5)
                   in if final_wait_timeout env
                      then force_cancel env (tasks_to_await env)
                             (log WARNING TimeoutWaitingMainTasks s7)
                      else s7)
                else s5)"
  have r: "shutdown_sequence env s = log INFO ShutdownComplete s6"
    by (simp add: shutdown_sequence_def s1_def s2_def s3_def s4_def s5_def s6_def Let_def)
  have a1: "adds [Log INFO InitiatingShutdown] s s1"
    by (simp add: s1_def adds_log)
  have a2: "adds [] s1 s2"
    unfolding s2_def by (rule adds_grows [OF grows_cancel_all [OF grows_refl]])
  have a3: "adds [Log INFO ClosingLocalServer, ServerClose] s2 s3"
    unfolding s3_def
    using adds_trans [OF adds_log [of INFO ClosingLocalServer s2] adds_emit] by simp
  have a4: "adds [] s3 s4"
    unfolding s4_def by (rule adds_run_tasks)
  have a5: "adds [] s4 s5"
    unfolding s5_def by (rule adds_grows [of "\<lambda>e. True"]) (simp add: grows_log)
  have a6: "adds (if tasks_to_await env \<noteq> [] then [Log INFO (WaitingForMainTasks (tasks_to_await env))] else []) s5 s6"
  proof (cases "tasks_to_await env = []")
    case True
    then show ?thesis by (simp add: s6_def)
  next
    case False
    let ?a = "log INFO (WaitingForMainTasks (tasks_to_await env)) s5"
    let ?b = "run_tasks (during_final_wait env) ?a"
    have b1: "adds [Log INFO (WaitingForMainTasks (tasks_to_await env))] s5 ?a"
      by (simp add: adds_log)
    have b2: "adds [] ?a ?b" by (rule adds_run_tasks)
    have b3: "adds [] ?b s6"
      using False
      by (auto simp: s6_def Let_def
          intro!: adds_grows [of "\<lambda>e. True"] grows_force_cancel grows_log)
    from adds_trans [OF adds_trans [OF b1 b2] b3] False show ?thesis by simp
  qed
  have a7: "adds [Log INFO ShutdownComplete] s6 (log INFO ShutdownComplete s6)"
    by (simp add: adds_log)
  from adds_trans [OF adds_trans [OF adds_trans [OF adds_trans [OF adds_trans [OF adds_trans
        [OF a1 a2] a3] a4] a5] a6] a7]
  show ?thesis by (simp add: r)
qed

text \<open>
  Claim C3. A handler that starts while the shutdown flag is set logs the rejection, calls
  \<^verbatim>\<open>close(code=1012, reason="Server shutting down")\<close> on the new connection and does nothing
  else: the registry and the flag are as before, and the handler returns, unless \<^verbatim>\<open>close\<close>
  raises something other than \<^verbatim>\<open>ConnectionClosed\<close>, which then leaves the handler with the
  registry still unchanged.
\<close>

theorem connection_during_shutdown_is_rejected:
  assumes "shutdown_event s"
  shows "CONNECTED_CLIENTS (snd (register_client c path env s)) = CONNECTED_CLIENTS s
       \<and> shutdown_event (snd (register_client c path env s))
       \<and> trace (snd (register_client c path env s))
           = trace s @ [Log WARNING (RejectingNewClient c), Close c 1012 ''Server shutting down'']
       \<and> fst (register_client c path env s)
           = (case accept_close env of
                None \<Rightarrow> None
              | Some e \<Rightarrow> if is_ConnectionClosed e then None else Some e)
       \<and> (accept_close env = None \<longrightarrow> conn (snd (register_client c path env s)) c = CLOSED)"
  using assms
  by (simp add: register_client_def register_client_enter_def client_close_def Let_def
      split: option.splits)

theorem connection_during_shutdown_is_rejected_witness:
  "shutdown_event shutting_down
   \<and> list_of_dlist (CONNECTED_CLIENTS (snd (register_client 3 ''/'' rejecting shutting_down))) = [2, 1]
   \<and> events_since shutting_down (snd (register_client 3 ''/'' rejecting shutting_down))
        = [Log WARNING (RejectingNewClient 3), Close 3 1012 ''Server shutting down'']
   \<and> fst (register_client 3 ''/'' rejecting shutting_down) = None
   \<and> conn (snd (register_client 3 ''/'' rejecting shutting_down)) 3 = CLOSED"
  using connection_during_shutdown_is_rejected [of shutting_down 3 "''/''" rejecting]
  by (simp add: shutting_down_def rejecting_def events_since_def os_signal_handler_def Let_def
      two_subscribers_fields)

text \<open>
  Claim C9. When \<^verbatim>\<open>websockets.serve\<close> raises, for a port in use, another OS error or any
  other exception, the coordinator logs one record at level CRITICAL, the highest level,
  and returns: no listener was started, and neither the connector task nor a connect
  attempt is made.
\<close>

theorem bind_failure_stops_startup:
  assumes "serve_outcome env = Some e"
  shows "fst (main_server_logic env s) = Returned
       \<and> trace (snd (main_server_logic env s))
           = trace (run_tasks (during_serve env) s)
             @ [Log CRITICAL (if is_OSError e
                              then (if errno e = Some 10048 then PortInUse LOCAL_WS_PORT
                                    else OSErrorStartup e)
                              else FailedToStart e)]
       \<and> (\<forall>l. level_no l \<le> level_no CRITICAL)
       \<and> count_list (trace (snd (main_server_logic env s))) (Serve h p) = count_list (trace s) (Serve h p)
       \<and> count_list (trace (snd (main_server_logic env s))) (CreateTask ExternalDataReceiver)
           = count_list (trace s) (CreateTask ExternalDataReceiver)
       \<and> count_list (trace (snd (main_server_logic env s))) (Connect u) = count_list (trace s) (Connect u)"
proof -
  have lv: "\<forall>l. level_no l \<le> level_no CRITICAL"
  proof
    fix l show "level_no l \<le> level_no CRITICAL" by (cases l) simp_all
  qed
  from assms lv show ?thesis
    by (simp add: main_server_logic_def Let_def count_run_tasks)
qed

theorem bind_failure_stops_startup_witness:
  "serve_outcome port_in_use = Some (OSError (Some 10048))
   \<and> main_server_logic port_in_use initial
       = (Returned, initial\<lparr>trace := [Log CRITICAL (PortInUse 9000)]\<rparr>)"
proof -
  have 1: "serve_outcome port_in_use = Some (OSError (Some 10048))"
    by (simp add: port_in_use_def)
  have 2: "main_server_logic port_in_use initial
       = (fst (main_server_logic port_in_use initial), snd (main_server_logic port_in_use initial))"
    by simp
  have 3: "snd (main_server_logic port_in_use initial) = initial\<lparr>trace := trace (snd (main_server_logic port_in_use initial))\<rparr>"
    using 1 by (simp add: main_server_logic_def Let_def port_in_use_def connector_crashed_def log_def emit_def)
  from bind_failure_stops_startup [OF 1, of initial] 1 2 3 show ?thesis
    by (simp add: port_in_use_def connector_crashed_def LOCAL_WS_PORT_def initial_def)
qed

lemma grows_any_run_tasks:
  "grows (\<lambda>e. True) s t \<Longrightarrow> grows (\<lambda>e. True) s (run_tasks evs t)"
  by (rule grows_trans, assumption) (rule grows_any [OF grows_run_tasks [OF grows_refl]])

lemma adds_main_running:
  "adds [] s
     (run_tasks (during_main_wait env)
        (log INFO MainRunning
           (emit (CreateTask ShutdownEventWatcher)
              (emit (CreateTask ExternalDataReceiver)
                 (log INFO (ServerStarted LOCAL_WS_HOST LOCAL_WS_PORT)
                    (emit (Serve LOCAL_WS_HOST LOCAL_WS_PORT) (run_tasks (during_serve env) s)))))))"
  by (rule adds_grows [of "\<lambda>e. True"]) (simp add: grows_any_run_tasks grows_emit grows_log)

text \<open>
  Claim C7. When the listener has started and the connector task is among the tasks that
  ended the coordinator's wait, with or without an exception of its own, the coordinator
  returns normally, the shutdown flag is set afterwards, and the events it adds contain, in
  this order: the warning that the task finished, the error record with the task's
  exception if it had one, the start of the shutdown sequence, the closing of the listener,
  the wait for the tasks still running if there are any, and the completion record.
\<close>

theorem connector_exit_triggers_shutdown:
  assumes "serve_outcome env = None"
    and "ExternalDataReceiver \<in> set (wait_done env)"
    and "external_result env \<noteq> CancelledErr"
  shows "fst (main_server_logic env s) = Returned
       \<and> shutdown_event (snd (main_server_logic env s))
       \<and> subseq ([Log WARNING ExternalTaskFinished]
                 @ (case external_result env of
                      Raised e \<Rightarrow> [Log ERROR (ExternalTaskException e)]
                    | _ \<Rightarrow> [])
                 @ [Log INFO InitiatingShutdown, Log INFO ClosingLocalServer, ServerClose]
                 @ (if tasks_to_await env \<noteq> []
                    then [Log INFO (WaitingForMainTasks (tasks_to_await env))] else [])
                 @ [Log INFO ShutdownComplete])
                (events_since s (snd (main_server_logic env s)))"
proof -
  define s3 where "s3 = run_tasks (during_main_wait env)
        (log INFO MainRunning
           (emit (CreateTask ShutdownEventWatcher)
              (emit (CreateTask ExternalDataReceiver)
                 (log INFO (ServerStarted LOCAL_WS_HOST LOCAL_WS_PORT)
                    (emit (Serve LOCAL_WS_HOST LOCAL_WS_PORT) (run_tasks (during_serve env) s))))))"
  define s4 where "s4 = log WARNING ExternalTaskFinished s3"
  define tail where "tail = [Log INFO InitiatingShutdown, Log INFO ClosingLocalServer, ServerClose]
         @ (if tasks_to_await env \<noteq> [] then [Log INFO (WaitingForMainTasks (tasks_to_await env))] else [])
         @ [Log INFO ShutdownComplete]"
  have a3: "adds [] s s3"
    unfolding s3_def by (rule adds_main_running)
  have a4: "adds [Log WARNING ExternalTaskFinished] s3 s4"
    by (simp add: s4_def adds_log)
  have a34: "adds [Log WARNING ExternalTaskFinished] s s4"
    using adds_trans [OF a3 a4] by simp
  have sq: "adds tail t (shutdown_sequence env t)" for t
    unfolding tail_def by (rule adds_shutdown_sequence)
  show ?thesis
  proof (cases "external_result env")
    case Returned
    have m: "main_server_logic env s = (Returned, shutdown_sequence env s4)"
      using assms Returned by (simp add: main_server_logic_def Let_def s3_def s4_def)
    from adds_since [OF adds_trans [OF a34 sq [of s4]]] Returned
    show ?thesis by (simp add: m tail_def)
  next
    case (Raised e)
    let ?s5 = "log ERROR (ExternalTaskException e) s4"
    have m: "main_server_logic env s = (Returned, shutdown_sequence env ?s5)"
      using assms Raised by (simp add: main_server_logic_def Let_def s3_def s4_def)
    have a5: "adds [Log ERROR (ExternalTaskException e)] s4 ?s5"
      by (simp add: adds_log)
    from adds_since [OF adds_trans [OF adds_trans [OF a34 a5] sq [of ?s5]]] Raised
    show ?thesis by (simp add: m tail_def)
  next
    case CancelledErr
    with assms show ?thesis by simp
  qed
qed

theorem connector_exit_triggers_shutdown_witness:
  "serve_outcome connector_crashed = None
   \<and> ExternalDataReceiver \<in> set (wait_done connector_crashed)
   \<and> external_result connector_crashed \<noteq> CancelledErr
   \<and> fst (main_server_logic connector_crashed initial) = Returned
   \<and> shutdown_event (snd (main_server_logic connector_crashed initial))
   \<and> subseq [Log WARNING ExternalTaskFinished, Log ERROR (ExternalTaskException OtherException),
              Log INFO InitiatingShutdown, Log INFO ClosingLocalServer, ServerClose,
              Log INFO (WaitingForMainTasks [ShutdownEventWatcher]), Log INFO ShutdownComplete]
        (events_since initial (snd (main_server_logic connector_crashed initial)))"
  using connector_exit_triggers_shutdown [of connector_crashed initial]
  by (simp add: connector_crashed_def tasks_to_await_def)

lemma handler_relay: "handler_event e \<Longrightarrow> relay_event e"
proof (cases e)
  case (Log l m)
  assume "handler_event e"
  with Log show ?thesis by (cases m) simp_all
next
  case (CreateTask t)
  assume "handler_event e"
  with CreateTask show ?thesis by (cases t) simp_all
qed simp_all

lemma grows_relay_run_tasks:
  "grows relay_event s t \<Longrightarrow> grows relay_event s (run_tasks evs t)"
  by (rule grows_trans, assumption)
     (rule grows_mono [OF grows_run_tasks [OF grows_refl]], rule handler_relay)

lemma grows_relay_create:
  "grows relay_event s t \<Longrightarrow> grows relay_event s (snd (create_send_tasks m cs t))"
  by (induction cs arbitrary: t) (simp_all add: split_def Let_def grows_emit grows_log)

lemma grows_relay_run_sends:
  "grows relay_event s t \<Longrightarrow> \<forall>x \<in> set ts. snd x \<noteq> [] \<Longrightarrow>
   grows relay_event s (snd (run_sends env ts t))"
proof (induction ts arbitrary: t)
  case Nil
  then show ?case by simp
next
  case (Cons x ts)
  obtain c m where x: "x = (c, m)" by (cases x)
  from Cons.prems x have m: "m \<noteq> []" by simp
  have "grows relay_event s (emit (Send c m) (run_tasks (interleaved env c) t))"
    using Cons.prems(1) m by (simp add: grows_emit grows_relay_run_tasks)
  from Cons.IH [OF this] Cons.prems(2) show ?case
    by (simp add: x split_def Let_def)
qed

lemma grows_relay_report:
  "grows relay_event s t \<Longrightarrow> grows relay_event s (report_errors xs t)"
  by (induction xs t rule: report_errors.induct) (simp_all add: grows_log split: option.splits)

lemma grows_relay_broadcast:
  assumes "grows relay_event s t"
  shows "grows relay_event s (snd (broadcast_message env m t))"
proof (cases "m = []")
  case True
  with assms show ?thesis by simp
next
  case False
  show ?thesis
  proof (cases "open_clients t = []")
    case True
    with False assms show ?thesis by (simp add: broadcast_none_open grows_relay_create)
  next
    case op: False
    from False have "\<forall>x \<in> set (map (\<lambda>c. (c, m)) (open_clients t)). snd x \<noteq> []"
      by simp
    from grows_relay_run_sends [OF grows_relay_create [OF assms] this]
    show ?thesis
      using False op by (simp add: broadcast_some_open grows_relay_report grows_relay_run_tasks)
  qed
qed

lemma flag_broadcast:
  "shutdown_event s \<Longrightarrow> shutdown_event (snd (broadcast_message env m s))"
  using shared_broadcast [of env m s] flag_run_tasks [of s "broadcast_interleaved env m s"]
  by (simp add: shared_def)

subsection \<open>A logged signal means the flag is set\<close>











subsection \<open>The receive loop and one connect attempt\<close>

lemma receive_loop_flag: "shutdown_event s \<Longrightarrow> receive_loop steps s = (Completed, s)"
proof (cases steps)
  case Nil
  assume "shutdown_event s"
  with Nil show ?thesis by simp
next
  case (Cons a rest)
  assume "shutdown_event s"
  with Cons show ?thesis by (cases a) simp
qed

lemma broadcast_pair: "broadcast_message env m s = (None, snd (broadcast_message env m s))"
  using fst_broadcast [of env m s] by (cases "broadcast_message env m s") simp

lemma receive_loop_step:
  assumes "\<not> shutdown_event s"
  shows "receive_loop (RecvStep evs out # rest) s =
     (case out of
        Message m benv \<Rightarrow>
          receive_loop rest
            (if m \<noteq> [] then snd (broadcast_message benv m (run_tasks evs s)) else run_tasks evs s)
      | MessageCancelled m benv k \<Rightarrow>
          (if m \<noteq> [] then
             (case broadcast_cancelled benv k m (run_tasks evs s) of
                Some s2 \<Rightarrow> (Cancelled, s2)
              | None \<Rightarrow> receive_loop rest (snd (broadcast_message benv m (run_tasks evs s))))
           else receive_loop rest (run_tasks evs s))
      | RecvTimeout \<Rightarrow> receive_loop rest (run_tasks evs s)
      | RecvRaised e \<Rightarrow> (Completed, on_receive_error e (run_tasks evs s))
      | RecvCancelled \<Rightarrow> (Cancelled, run_tasks evs s))"
proof (cases out)
  case (Message m benv)
  obtain r s2 where b: "broadcast_message benv m (run_tasks evs s) = (r, s2)"
    by (cases "broadcast_message benv m (run_tasks evs s)")
  from fst_broadcast [of benv m "run_tasks evs s"] b have "r = None" by simp
  with assms Message b show ?thesis by simp
next
  case (MessageCancelled m benv k)
  obtain r s2 where b: "broadcast_message benv m (run_tasks evs s) = (r, s2)"
    by (cases "broadcast_message benv m (run_tasks evs s)")
  from fst_broadcast [of benv m "run_tasks evs s"] b have "r = None" by simp
  with assms MessageCancelled b show ?thesis by (simp split: option.splits)
qed (simp_all add: assms)

lemma receive_loop_preserves:
  assumes rt: "\<And>evs s. P s \<Longrightarrow> P (run_tasks evs s)"
    and bc: "\<And>env m s. P s \<Longrightarrow> P (snd (broadcast_message env m s))"
    and bx: "\<And>env k m s s'. P s \<Longrightarrow> broadcast_cancelled env k m s = Some s' \<Longrightarrow> P s'"
    and lg: "\<And>l m s. \<not> signal_msg m \<Longrightarrow> P s \<Longrightarrow> P (log l m s)"
  shows "P s \<Longrightarrow> P (snd (receive_loop steps s))"
proof (induction steps arbitrary: s)
  case Nil
  then show ?case by simp
next
  case (Cons a rest)
  obtain evs out where a: "a = RecvStep evs out" by (cases a)
  show ?case
  proof (cases "shutdown_event s")
    case True
    with Cons.prems show ?thesis by (simp add: receive_loop_flag)
  next
    case False
    note p1 = rt [OF Cons.prems, of evs]
    show ?thesis
    proof (cases out)
      case (Message m benv)
      show ?thesis
      proof (cases "m = []")
        case True
        with Cons.IH [OF p1] False Message show ?thesis
          by (simp add: a receive_loop_step del: receive_loop.simps)
      next
        case ne: False
        with Cons.IH [OF bc [OF p1, of benv m]] False Message show ?thesis
          by (simp add: a receive_loop_step del: receive_loop.simps)
      qed
    next
      case (MessageCancelled m benv k)
      show ?thesis
      proof (cases "m = []")
        case True
        with Cons.IH [OF p1] False MessageCancelled show ?thesis
          by (simp add: a receive_loop_step del: receive_loop.simps)
      next
        case ne: False
        show ?thesis
        proof (cases "broadcast_cancelled benv k m (run_tasks evs s)")
          case None
          with Cons.IH [OF bc [OF p1, of benv m]] False MessageCancelled ne show ?thesis
            by (simp add: a receive_loop_step del: receive_loop.simps)
        next
          case (Some s2)
          with bx [OF p1 Some] False MessageCancelled ne show ?thesis
            by (simp add: a receive_loop_step del: receive_loop.simps)
        qed
      qed
    next
      case RecvTimeout
      with Cons.IH [OF p1] False show ?thesis
        by (simp add: a receive_loop_step del: receive_loop.simps)
    next
      case (RecvRaised e)
      with False p1 show ?thesis
        by (simp add: a receive_loop_step on_receive_error_def lg del: receive_loop.simps)
    next
      case RecvCancelled
      with False p1 show ?thesis
        by (simp add: a receive_loop_step del: receive_loop.simps)
    qed
  qed
qed

lemma start_connect_alt: "start_connect a s = emit (Connect EXTERNAL_WS_URI) (pre_connect a s)"
  by (simp add: start_connect_def pre_connect_def)

lemma attempt_body_preserves:
  assumes rt: "\<And>evs s. P s \<Longrightarrow> P (run_tasks evs s)"
    and bc: "\<And>env m s. P s \<Longrightarrow> P (snd (broadcast_message env m s))"
    and bx: "\<And>env k m s s'. P s \<Longrightarrow> broadcast_cancelled env k m s = Some s' \<Longrightarrow> P s'"
    and lg: "\<And>l m s. \<not> signal_msg m \<Longrightarrow> P s \<Longrightarrow> P (log l m s)"
  shows "P (start_connect a s) \<Longrightarrow> P (snd (attempt_body a s))"
proof -
  assume p0: "P (start_connect a s)"
  let ?s2 = "run_tasks (during_connect a) (start_connect a s)"
  have p2: "P ?s2" by (rule rt [OF p0])
  show ?thesis
  proof (cases "connect_result a")
    case (ConnectRaised e)
    with p2 show ?thesis
      by (simp add: attempt_body_def Let_def on_connect_error_def lg)
  next
    case ConnectCancelled
    with p2 show ?thesis
      by (simp add: attempt_body_def Let_def)
  next
    case (Connected steps xevs xout)
    let ?s3 = "log INFO (ConnectedExternal EXTERNAL_WS_URI) ?s2"
    have p3: "P ?s3" using p2 by (simp add: lg)
    obtain r s4 where rl: "receive_loop steps ?s3 = (r, s4)"
      by (cases "receive_loop steps ?s3")
    from receive_loop_preserves [of P, OF rt bc bx lg p3, where steps = steps] rl have p4: "P s4"
      by simp
    have p5: "P (run_tasks xevs s4)" by (rule rt [OF p4])
    from p4 p5 rl Connected show ?thesis
      by (cases r; cases xout)
         (simp_all add: attempt_body_def Let_def on_connect_error_def lg)
  qed
qed

lemma retry_wait_preserves:
  assumes rt: "\<And>evs s. P s \<Longrightarrow> P (run_tasks evs s)"
    and ew: "\<And>out s. P s \<Longrightarrow> P (emit (WaitShutdown 5 out) s)"
  shows "P s \<Longrightarrow> P (retry_wait evs s)"
  by (simp add: retry_wait_def Let_def rt ew)

lemma connector_loop_flag: "shutdown_event s \<Longrightarrow> connector_loop script s = (Completed, s)"
  by (cases script) simp_all

lemma connector_loop_step:
  "\<not> shutdown_event s \<Longrightarrow>
   connector_loop (a # rest) s =
     (case fst (attempt_body a s) of
        Suspended \<Rightarrow> (Suspended, snd (attempt_body a s))
      | Cancelled \<Rightarrow> (Cancelled, snd (attempt_body a s))
      | Completed \<Rightarrow>
          if retry_wait_cancelled a \<and> \<not> shutdown_event (snd (attempt_body a s))
          then (Cancelled, run_tasks (during_retry_wait a) (snd (attempt_body a s)))
          else connector_loop rest (retry_wait (during_retry_wait a) (snd (attempt_body a s))))"
  by (cases "attempt_body a s"; cases "fst (attempt_body a s)") simp_all

lemma connector_loop_preserves:
  assumes rt: "\<And>evs s. P s \<Longrightarrow> P (run_tasks evs s)"
    and bc: "\<And>env m s. P s \<Longrightarrow> P (snd (broadcast_message env m s))"
    and bx: "\<And>env k m s s'. P s \<Longrightarrow> broadcast_cancelled env k m s = Some s' \<Longrightarrow> P s'"
    and lg: "\<And>l m s. \<not> signal_msg m \<Longrightarrow> P s \<Longrightarrow> P (log l m s)"
    and ec: "\<And>u s. P s \<Longrightarrow> P (emit (Connect u) s)"
    and ew: "\<And>out s. P s \<Longrightarrow> P (emit (WaitShutdown 5 out) s)"
  shows "P s \<Longrightarrow> P (snd (connector_loop script s))"
proof (induction script arbitrary: s)
  case Nil
  then show ?case by simp
next
  case (Cons a rest)
  show ?case
  proof (cases "shutdown_event s")
    case True
    with Cons.prems show ?thesis by (simp add: connector_loop_flag)
  next
    case False
    have "P (start_connect a s)"
      using Cons.prems by (simp add: start_connect_def handle_signals_def lg ec rt)
    from attempt_body_preserves [of P, OF rt bc bx lg this]
    have p1: "P (snd (attempt_body a s))" .
    from retry_wait_preserves [of P, OF rt ew p1, of "during_retry_wait a"]
    have p2: "P (retry_wait (during_retry_wait a) (snd (attempt_body a s)))" .
    have p3: "P (run_tasks (during_retry_wait a) (snd (attempt_body a s)))"
      by (rule rt [OF p1])
    from Cons.IH [OF p2] p1 p3 False show ?thesis
      by (cases "fst (attempt_body a s)")
         (simp_all add: connector_loop_step del: connector_loop.simps)
  qed
qed

lemma connector_preserves:
  assumes rt: "\<And>evs s. P s \<Longrightarrow> P (run_tasks evs s)"
    and bc: "\<And>env m s. P s \<Longrightarrow> P (snd (broadcast_message env m s))"
    and bx: "\<And>env k m s s'. P s \<Longrightarrow> broadcast_cancelled env k m s = Some s' \<Longrightarrow> P s'"
    and lg: "\<And>l m s. \<not> signal_msg m \<Longrightarrow> P s \<Longrightarrow> P (log l m s)"
    and ec: "\<And>u s. P s \<Longrightarrow> P (emit (Connect u) s)"
    and ew: "\<And>out s. P s \<Longrightarrow> P (emit (WaitShutdown 5 out) s)"
  shows "P s \<Longrightarrow> P (snd (receive_from_external_adsb script s))"
proof -
  assume "P s"
  then have "P (log INFO ReceiverStarted s)" by (simp add: lg)
  from connector_loop_preserves [of P, OF rt bc bx lg ec ew this, where script = script]
  show ?thesis
    by (cases "connector_loop script (log INFO ReceiverStarted s)";
        cases "fst (connector_loop script (log INFO ReceiverStarted s))")
       (simp_all add: receive_from_external_adsb_def lg)
qed

subsection \<open>A broadcast cut by cancellation\<close>

lemma broadcast_cancelled_Some:
  "broadcast_cancelled env k m s = Some s' \<Longrightarrow>
   m \<noteq> [] \<and>
   s' = snd (run_sends env (take k (map (\<lambda>c. (c, m)) (open_clients s)))
               (snd (create_send_tasks m (list_of_dlist (CONNECTED_CLIENTS s)) s)))"
  using fst_create [of m "list_of_dlist (CONNECTED_CLIENTS s)" s]
  by (cases "create_send_tasks m (list_of_dlist (CONNECTED_CLIENTS s)) s")
     (auto simp: broadcast_cancelled_def Let_def open_clients_def split: if_splits)

lemma grows_relay_cancelled:
  assumes "grows relay_event s t" and "broadcast_cancelled env k m t = Some t'"
  shows "grows relay_event s t'"
proof -
  from broadcast_cancelled_Some [OF assms(2)]
  have m: "m \<noteq> []"
    and t': "t' = snd (run_sends env (take k (map (\<lambda>c. (c, m)) (open_clients t)))
               (snd (create_send_tasks m (list_of_dlist (CONNECTED_CLIENTS t)) t)))"
    by simp_all
  from m have "\<forall>x \<in> set (take k (map (\<lambda>c. (c, m)) (open_clients t))). snd x \<noteq> []"
    by (auto dest: in_set_takeD)
  from grows_relay_run_sends [OF grows_relay_create [OF assms(1)] this]
  show ?thesis by (simp add: t')
qed


lemma flag_cancelled:
  assumes "shutdown_event s" and "broadcast_cancelled env k m s = Some s'"
  shows "shutdown_event s'"
proof -
  let ?ts = "take k (map (\<lambda>c. (c, m)) (open_clients s))"
  let ?s2 = "snd (create_send_tasks m (list_of_dlist (CONNECTED_CLIENTS s)) s)"
  from broadcast_cancelled_Some [OF assms(2)] have s': "s' = snd (run_sends env ?ts ?s2)"
    by simp
  have "shared (run_tasks (concat (map (\<lambda>t. interleaved env (fst t)) ?ts)) ?s2)
          = shared (run_tasks (concat (map (\<lambda>t. interleaved env (fst t)) ?ts)) s)"
    by (rule shared_run_tasks) simp
  with shared_run_sends [of env ?ts ?s2]
       flag_run_tasks [OF assms(1), of "concat (map (\<lambda>t. interleaved env (fst t)) ?ts)"]
  show ?thesis by (simp add: s' shared_def)
qed

subsection \<open>Scanning a trace for connect attempts\<close>

lemma armed_after_append:
  "armed_after trig a (t @ u) = armed_after trig (armed_after trig a t) u"
  by (induction t arbitrary: a) simp_all

lemma retry_guard_append:
  "retry_guard trig a (t @ u) = (retry_guard trig a t \<and> retry_guard trig (armed_after trig a t) u)"
  by (induction t arbitrary: a) simp_all

lemma retry_guard_no_connect: "list_all (\<lambda>e. \<not> is_connect e) X \<Longrightarrow> retry_guard trig a X"
  by (induction X arbitrary: a) simp_all

lemma guard_grows:
  "grows (\<lambda>e. \<not> is_connect e) s t \<Longrightarrow> retry_guard trig a (trace s) \<Longrightarrow> retry_guard trig a (trace t)"
  by (auto simp: grows_def retry_guard_append retry_guard_no_connect)

lemma armed_stays_off:
  "list_all (\<lambda>e. \<not> trig e \<and> \<not> is_connect e) X \<Longrightarrow> \<not> a \<Longrightarrow> \<not> armed_after trig a X"
  by (induction X arbitrary: a) (simp_all add: arm_def)










lemma window_not_connect: "window_event e \<Longrightarrow> \<not> is_connect e"
  by (cases e) simp_all

lemma relay_not_connect: "relay_event e \<Longrightarrow> \<not> is_connect e"
  by (cases e) simp_all

lemma nc_run_tasks:
  "grows (\<lambda>e. \<not> is_connect e) s t \<Longrightarrow> grows (\<lambda>e. \<not> is_connect e) s (run_tasks evs t)"
  by (rule grows_trans, assumption)
     (rule grows_mono [OF grows_relay_run_tasks [OF grows_refl]], rule relay_not_connect)

lemma nc_broadcast:
  "grows (\<lambda>e. \<not> is_connect e) s t \<Longrightarrow>
   grows (\<lambda>e. \<not> is_connect e) s (snd (broadcast_message env m t))"
  by (rule grows_trans, assumption)
     (rule grows_mono [OF grows_relay_broadcast [OF grows_refl]], rule relay_not_connect)

lemma nc_cancelled:
  "grows (\<lambda>e. \<not> is_connect e) s t \<Longrightarrow> broadcast_cancelled env k m t = Some t' \<Longrightarrow>
   grows (\<lambda>e. \<not> is_connect e) s t'"
  by (rule grows_trans, assumption)
     (rule grows_mono [OF grows_relay_cancelled [OF grows_refl]], assumption, rule relay_not_connect)

lemma nc_log:
  "grows (\<lambda>e. \<not> is_connect e) s t \<Longrightarrow> grows (\<lambda>e. \<not> is_connect e) s (log l m t)"
  by (simp add: grows_log)

lemma nc_attempt_body:
  "grows (\<lambda>e. \<not> is_connect e) (start_connect a s) (snd (attempt_body a s))"
  by (rule attempt_body_preserves [of "grows (\<lambda>e. \<not> is_connect e) (start_connect a s)"])
     (simp_all add: nc_run_tasks nc_broadcast nc_log nc_cancelled)

lemma nc_retry_wait:
  "grows (\<lambda>e. \<not> is_connect e) s (retry_wait evs s)"
  by (rule retry_wait_preserves [of "grows (\<lambda>e. \<not> is_connect e) s"])
     (simp_all add: nc_run_tasks grows_emit)

lemma grows_window_signals:
  "grows window_event s t \<Longrightarrow> grows window_event s (handle_signals sigs t)"
  unfolding handle_signals_def
  by (induction sigs arbitrary: t) (simp_all add: os_signal_handler_def Let_def grows_log)

lemma grows_pre_connect: "grows window_event s (pre_connect a s)"
  by (simp add: pre_connect_def grows_window_signals grows_log)

lemma trace_start_connect:
  "\<exists>X. trace (start_connect a s) = trace s @ X @ [Connect EXTERNAL_WS_URI] \<and> list_all window_event X"
  using grows_pre_connect [of s a] by (auto simp: start_connect_alt grows_def)





lemma armed_after_retry_wait:
  "\<not> shutdown_event s \<Longrightarrow> \<not> armed_after trig a (trace (retry_wait evs s))"
  by (simp add: retry_wait_def Let_def armed_after_append arm_def)

lemma retry_wait_flag: "shutdown_event s \<Longrightarrow> retry_wait evs s = s"
  by (simp add: retry_wait_def)

lemma guard_start_connect:
  assumes trig: "\<And>e. window_event e \<Longrightarrow> \<not> trig e"
    and g: "retry_guard trig False (trace s)"
    and na: "\<not> armed_after trig False (trace s)"
  shows "retry_guard trig False (trace (start_connect a s))"
proof -
  from trace_start_connect [of a s] obtain X
    where X: "trace (start_connect a s) = trace s @ X @ [Connect EXTERNAL_WS_URI]"
      and w: "list_all window_event X"
    by blast
  from w have q: "list_all (\<lambda>e. \<not> trig e \<and> \<not> is_connect e) X"
    by (auto simp: list_all_iff trig window_not_connect)
  from q have nc: "list_all (\<lambda>e. \<not> is_connect e) X"
    by (auto simp: list_all_iff)
  from armed_stays_off [OF q, of "armed_after trig False (trace s)"] na
  have "\<not> armed_after trig (armed_after trig False (trace s)) X" by simp
  with g nc show ?thesis
    by (simp add: X retry_guard_append retry_guard_no_connect armed_after_append)
qed

lemma guard_connector_loop:
  assumes trig: "\<And>e. window_event e \<Longrightarrow> \<not> trig e"
  shows "retry_guard trig False (trace s) \<Longrightarrow>
         shutdown_event s \<or> \<not> armed_after trig False (trace s) \<Longrightarrow>
         retry_guard trig False (trace (snd (connector_loop script s)))"
proof (induction script arbitrary: s)
  case Nil
  then show ?case by simp
next
  case (Cons a rest)
  show ?case
  proof (cases "shutdown_event s")
    case True
    with Cons.prems show ?thesis by (simp add: connector_loop_flag)
  next
    case False
    with Cons.prems have na: "\<not> armed_after trig False (trace s)" by simp
    have g0: "retry_guard trig False (trace (start_connect a s))"
      by (rule guard_start_connect [OF trig Cons.prems(1) na])
    let ?s1 = "snd (attempt_body a s)"
    have g1: "retry_guard trig False (trace ?s1)"
      by (rule guard_grows [OF nc_attempt_body g0])
    let ?s2 = "retry_wait (during_retry_wait a) ?s1"
    have g2: "retry_guard trig False (trace ?s2)"
      by (rule guard_grows [OF nc_retry_wait g1])
    have g3: "retry_guard trig False (trace (run_tasks (during_retry_wait a) ?s1))"
      by (rule guard_grows [OF nc_run_tasks [OF grows_refl] g1])
    have f2: "shutdown_event ?s2 \<or> \<not> armed_after trig False (trace ?s2)"
    proof (cases "shutdown_event ?s1")
      case True
      then show ?thesis by (simp add: retry_wait_flag)
    next
      case False
      then show ?thesis by (simp add: armed_after_retry_wait)
    qed
    from Cons.IH [OF g2 f2] g1 g3 False show ?thesis
      by (cases "fst (attempt_body a s)")
         (simp_all add: connector_loop_step del: connector_loop.simps)
  qed
qed


subsection \<open>A wait ended by the event means the flag is set\<close>












subsection \<open>Whole runs of the connector\<close>

lemma trace_connector:
  "trace (snd (receive_from_external_adsb script s))
     = trace (snd (connector_loop script (log INFO ReceiverStarted s)))
       @ (if fst (connector_loop script (log INFO ReceiverStarted s)) = Completed
          then [Log INFO ReceiverStopped] else [])"
  by (cases "connector_loop script (log INFO ReceiverStarted s)";
      cases "fst (connector_loop script (log INFO ReceiverStarted s))")
     (simp_all add: receive_from_external_adsb_def)

lemma guard_connector:
  assumes trig: "\<And>e. window_event e \<Longrightarrow> \<not> trig e"
    and t2: "\<And>l. \<not> trig (Log l ReceiverStarted)"
    and "trace s = []"
  shows "retry_guard trig False (trace (snd (receive_from_external_adsb script s)))"
proof -
  let ?s0 = "log INFO ReceiverStarted s"
  have 1: "retry_guard trig False (trace ?s0)"
    using assms(3) by simp
  have 2: "shutdown_event ?s0 \<or> \<not> armed_after trig False (trace ?s0)"
    using assms(3) by (simp add: arm_def t2)
  from guard_connector_loop [of trig, OF trig 1 2, where script = script]
  show ?thesis
    by (simp add: trace_connector retry_guard_append)
qed








lemma flag_connector:
  "shutdown_event s \<Longrightarrow> shutdown_event (snd (receive_from_external_adsb script s))"
proof (rule connector_preserves [of shutdown_event])
  show "\<And>env k m s s'. shutdown_event s \<Longrightarrow> broadcast_cancelled env k m s = Some s' \<Longrightarrow>
          shutdown_event s'"
    by (rule flag_cancelled)
qed (simp_all add: flag_run_tasks flag_broadcast)

lemma flag_register_client:
  "shutdown_event s \<Longrightarrow> shutdown_event (snd (register_client c path env s))"
  using flag_enter [of c path "accept_close env" s]
  by (cases "register_client_enter c path (accept_close env) s";
      cases "fst (register_client_enter c path (accept_close env) s)")
     (simp_all add: register_client_def flag_run_tasks)

lemma flag_main:
  "shutdown_event s \<Longrightarrow> shutdown_event (snd (main_server_logic env s))"
  by (simp add: main_server_logic_def Let_def flag_run_tasks
      split: option.splits coro_result.splits)

lemma count_empty_send_connector:
  "count_list (trace (snd (receive_from_external_adsb script s))) (Send c [])
     = count_list (trace s) (Send c [])"
proof -
  let ?P = "\<lambda>t. count_list (trace t) (Send c []) = count_list (trace s) (Send c [])"
  have bc: "?P (snd (broadcast_message env m t))" if "?P t" for env m t
  proof (cases "m = []")
    case True
    with that show ?thesis by simp
  next
    case False
    with that show ?thesis by (simp add: count_broadcast count_own_Send)
  qed
  have bx: "?P t'" if "?P t" "broadcast_cancelled env k m t = Some t'" for env k m t t'
    using count_grows [OF grows_relay_cancelled [OF grows_refl that(2)], of "Send c []"] that(1)
    by simp
  show ?thesis
  proof (rule connector_preserves [of ?P])
    show "\<And>env k m t t'. ?P t \<Longrightarrow> broadcast_cancelled env k m t = Some t' \<Longrightarrow> ?P t'"
      by (rule bx)
    show "\<And>env m t. ?P t \<Longrightarrow> ?P (snd (broadcast_message env m t))"
      by (rule bc)
  qed (simp_all add: count_run_tasks)
qed

lemma no_other_wait_connector:
  assumes "filter other_wait (trace s) = []"
  shows "filter other_wait (trace (snd (receive_from_external_adsb script s))) = []"
proof -
  let ?P = "\<lambda>t. filter other_wait (trace t) = []"
  have ro: "relay_event e \<Longrightarrow> \<not> other_wait e" for e
    by (cases e) simp_all
  have ho: "handler_event e \<Longrightarrow> \<not> other_wait e" for e
    by (cases e) simp_all
  have bc: "?P (snd (broadcast_message env m t))" if "?P t" for env m t
    using grows_filter [OF grows_relay_broadcast [OF grows_refl, of t env m], of other_wait] ro that
    by simp
  have bx: "?P t'" if "?P t" "broadcast_cancelled env k m t = Some t'" for env k m t t'
    using grows_filter [OF grows_relay_cancelled [OF grows_refl that(2)], of other_wait] ro that(1)
    by simp
  have rt: "?P (run_tasks evs t)" if "?P t" for evs t
    using filter_run_tasks [of other_wait evs t] ho that by simp
  show ?thesis
  proof (rule connector_preserves [of ?P])
    show "\<And>env k m t t'. ?P t \<Longrightarrow> broadcast_cancelled env k m t = Some t' \<Longrightarrow> ?P t'"
      by (rule bx)
    show "\<And>env m t. ?P t \<Longrightarrow> ?P (snd (broadcast_message env m t))"
      by (rule bc)
    show "\<And>evs t. ?P t \<Longrightarrow> ?P (run_tasks evs t)"
      by (rule rt)
  qed (simp_all add: assms)
qed

lemma fresh_two_fields:
  "list_of_dlist (CONNECTED_CLIENTS fresh_two) = [2, 1]"
  "conn fresh_two = (\<lambda>_. OPEN)"
  "shutdown_event fresh_two = False"
  "trace fresh_two = []"
  by (simp_all add: fresh_two_def two_subscribers_fields)

lemma flapping_run:
  "fst (receive_from_external_adsb flapping_upstream fresh_two) = Completed"
  "trace (snd (receive_from_external_adsb flapping_upstream fresh_two)) =
   [Log INFO ReceiverStarted,
    Log INFO (AttemptingConnect EXTERNAL_WS_URI), Connect EXTERNAL_WS_URI,
    Log WARNING (ExternalConnectionIssue (ConnectionRefusedError (Some 111))),
    WaitShutdown 5 TimedOut,
    Log INFO (AttemptingConnect EXTERNAL_WS_URI), Connect EXTERNAL_WS_URI,
    Log INFO (ConnectedExternal EXTERNAL_WS_URI),
    CreateTask (SendTo 2), CreateTask (SendTo 1), Send 2 ''A1'', Send 1 ''A1'',
    Log WARNING ExternalClosedDuringReceive,
    Log INFO (ReceivedOSSignal 2), WaitShutdown 5 EventSet,
    Log INFO ReceiverStopped]"
  by (simp_all add: receive_from_external_adsb_def flapping_upstream_def refused_def
      attempt_body_def start_connect_def handle_signals_def
      retry_wait_def on_connect_error_def on_receive_error_def os_signal_handler_def
      broadcast_message_def gather_def quiet_env_def Dlist.null_def Dlist.length_def Let_def
      fresh_two_fields)








text \<open>
  Claim C10. In a run of the connector that starts with an empty trace, every connect
  attempt after the first is preceded, since the previous connect attempt, by a
  \<^verbatim>\<open>wait_for(shutdown_event.wait(), timeout=5.0)\<close>, however the previous connection ended
  (it was refused, closed by the remote side, broken by a receive error, or its exit
  raised); the connector issues no wait with another timeout; and the wait, reached with
  the flag unset, ends with the event set exactly when the flag was set while it waited.
\<close>

theorem reconnect_always_preceded_by_wait:
  assumes "trace s = []"
  shows "retry_guard is_connect False (trace (snd (receive_from_external_adsb script s)))
       \<and> filter other_wait (trace (snd (receive_from_external_adsb script s))) = []
       \<and> (\<not> shutdown_event t \<longrightarrow>
            trace (retry_wait evs t)
              = trace (run_tasks evs t)
                @ [WaitShutdown 5 (if shutdown_event (run_tasks evs t) then EventSet else TimedOut)])"
proof -
  have 1: "retry_guard is_connect False (trace (snd (receive_from_external_adsb script s)))"
    by (rule guard_connector [OF window_not_connect _ assms]) simp_all
  have 2: "filter other_wait (trace (snd (receive_from_external_adsb script s))) = []"
    by (rule no_other_wait_connector) (simp add: assms)
  have 3: "\<not> shutdown_event t \<longrightarrow>
            trace (retry_wait evs t)
              = trace (run_tasks evs t)
                @ [WaitShutdown 5 (if shutdown_event (run_tasks evs t) then EventSet else TimedOut)]"
    by (simp add: retry_wait_def Let_def)
  from 1 2 3 show ?thesis by blast
qed

theorem reconnect_always_preceded_by_wait_witness:
  "trace fresh_two = []
   \<and> retry_guard is_connect False
        (trace (snd (receive_from_external_adsb flapping_upstream fresh_two)))
   \<and> subseq [Connect EXTERNAL_WS_URI, WaitShutdown 5 TimedOut, Connect EXTERNAL_WS_URI,
              Log WARNING ExternalClosedDuringReceive, WaitShutdown 5 EventSet]
        (trace (snd (receive_from_external_adsb flapping_upstream fresh_two)))
   \<and> \<not> shutdown_event fresh_two
   \<and> trace (retry_wait [OsSignal 2] fresh_two)
        = [Log INFO (ReceivedOSSignal 2), WaitShutdown 5 EventSet]"
  using reconnect_always_preceded_by_wait [of fresh_two flapping_upstream fresh_two "[OsSignal 2]"]
  by (simp add: fresh_two_fields flapping_run os_signal_handler_def Let_def arm_def)

text \<open>
  Claim C8. A broadcast of the empty message changes nothing, and neither does a broadcast
  while the registry is empty. When the connector receives an empty frame it goes on to the
  next receive without any effect of its own, and no run of the connector adds a send of
  the empty message to any subscriber.
\<close>

theorem empty_broadcast_is_noop:
  "broadcast_message env [] s = (None, s)
   \<and> (Dlist.null (CONNECTED_CLIENTS s) \<longrightarrow> broadcast_message env m s = (None, s))
   \<and> (\<not> shutdown_event s \<longrightarrow>
        receive_loop (RecvStep evs (Message [] env) # rest) s = receive_loop rest (run_tasks evs s))
   \<and> count_list (trace (snd (receive_from_external_adsb script s))) (Send c [])
        = count_list (trace s) (Send c [])"
proof -
  have 1: "broadcast_message env [] s = (None, s)"
    by (rule broadcast_empty)
  have 2: "Dlist.null (CONNECTED_CLIENTS s) \<longrightarrow> broadcast_message env m s = (None, s)"
    by (simp add: broadcast_no_clients)
  have 3: "\<not> shutdown_event s \<longrightarrow>
        receive_loop (RecvStep evs (Message [] env) # rest) s = receive_loop rest (run_tasks evs s)"
    by simp
  have 4: "count_list (trace (snd (receive_from_external_adsb script s))) (Send c [])
        = count_list (trace s) (Send c [])"
    by (rule count_empty_send_connector)
  from 1 2 3 4 show ?thesis by blast
qed

theorem empty_broadcast_is_noop_witness:
  "broadcast_message quiet_env [] fresh_two = (None, fresh_two)
   \<and> Dlist.null (CONNECTED_CLIENTS initial)
   \<and> broadcast_message quiet_env ''A1'' initial = (None, initial)
   \<and> \<not> shutdown_event fresh_two
   \<and> receive_loop [RecvStep [] (Message [] quiet_env)] fresh_two = (Suspended, fresh_two)
   \<and> count_list (trace (snd (receive_from_external_adsb flapping_upstream fresh_two))) (Send 1 []) = 0"
  using empty_broadcast_is_noop [of quiet_env fresh_two "''A1''" "[]" "[]" flapping_upstream 1]
        empty_broadcast_is_noop [of quiet_env initial "''A1''" "[]" "[]" flapping_upstream 1]
  by (simp add: fresh_two_fields) (simp add: initial_def Dlist.null_def)

text \<open>
  Claim C5. Once the shutdown flag is set it stays set: the signal handler, the
  coordinator's own setting of the flag, every handler block, a whole handler, a broadcast,
  the connector and the coordinator all end with the flag set when they start with it set.
  Setting it again changes nothing: the signal handler then only logs the receipt of the
  signal and the warning that shutdown is in progress, and the coordinator's setting is the
  identity.
\<close>

theorem shutdown_flag_is_monotonic_and_idempotent:
  assumes "shutdown_event s"
  shows "shutdown_event (os_signal_handler sig s)
       \<and> shutdown_event (set_shutdown s)
       \<and> shutdown_event (run_tasks evs s)
       \<and> shutdown_event (snd (register_client c path henv s))
       \<and> shutdown_event (snd (broadcast_message genv m s))
       \<and> shutdown_event (snd (receive_from_external_adsb script s))
       \<and> shutdown_event (snd (main_server_logic menv s))
       \<and> os_signal_handler sig s
           = s\<lparr>trace := trace s @ [Log INFO (ReceivedOSSignal sig), Log WARNING ShutdownAlreadyInProgress]\<rparr>
       \<and> set_shutdown s = s"
  using assms
  by (simp add: flag_run_tasks flag_register_client flag_broadcast flag_connector flag_main
      set_shutdown_def os_signal_handler_def Let_def log_def emit_def)

theorem shutdown_flag_is_monotonic_and_idempotent_witness:
  "shutdown_event shutting_down
   \<and> shutdown_event (os_signal_handler 2 shutting_down)
   \<and> shutdown_event (snd (main_server_logic connector_crashed shutting_down))
   \<and> shutdown_event (snd (receive_from_external_adsb flapping_upstream shutting_down))
   \<and> events_since shutting_down (os_signal_handler 2 shutting_down)
        = [Log INFO (ReceivedOSSignal 2), Log WARNING ShutdownAlreadyInProgress]
   \<and> set_shutdown shutting_down = shutting_down"
proof -
  have f: "shutdown_event shutting_down"
    by (simp add: shutting_down_def)
  from shutdown_flag_is_monotonic_and_idempotent
         [OF f, of 2 "[]" 3 "''/''" rejecting quiet_env "''A1''" flapping_upstream connector_crashed]
  show ?thesis
    using f by (simp add: events_since_def)
qed

end
